theory Spec2Isabelle
  imports
    Main
    "HOL-Library.Word"
    "HOL-Library.AList"
    "HOL-Library.List_Lexorder"
    "HOL-Library.Char_ord"
begin

section \<open>The in-memory store of routing/datastore.go\<close>

subsection \<open>Data model\<close>

text \<open>
  Go's \<open>int64\<close> is a 64-bit word read as two's complement; \<open>atomic.AddInt64\<close> wraps.
  A \<open>chan Reply\<close> is identified by a number; a send on it is recorded, in order, in the
  list of sends an operation returns (the consumer is assumed to drain the channel, so a
  send never blocks for ever; locking is not modelled).
\<close>

type_synonym int64 = "64 word"
type_synonym chan = nat

text \<open>
  Modelled from the spec: the declarations of \<open>Data\<close>, \<open>Reply\<close>, \<open>Request\<close> and \<open>Write\<close>
  are not in datastore.go. Their fields are the ones datastore.go reads and writes, with
  the types it uses them at (\<open>publish\<close> takes the timestamp as \<open>int64\<close>).  Field names
  carry a prefix because several structs have a field \<open>Node\<close> or \<open>Measurement\<close>.
\<close>

record Data =
  d_Measurement :: string
  d_Value :: string
  d_Timestamp :: int64

record Reply =
  rp_RequestId :: string
  rp_Node :: string
  rp_Datapoints :: "Data list"

record Request =
  rq_Node :: string
  rq_Measurements :: "string list"
  rq_ReplyChan :: chan

record Write =
  w_Node :: string
  w_Datapoints :: "Data list"

record Key =
  k_Node :: string
  k_Measurement :: string

record Tracking =
  t_requestId :: string
  t_reply :: chan
  t_subs :: "Key list"

text \<open>
  \<open>errors.New(msg)\<close>; a nil error is \<open>None\<close>.
\<close>

datatype error = errors_New string

text \<open>
  The store.  \<open>datastore\<close>, \<open>tracking\<close> and \<open>subscription\<close> are Go maps.  The inner map of
  \<open>datastore\<close> is ranged over by \<open>Write\<close>, so it is an association list (looked up with
  \<open>map_of\<close>, stored with \<open>AList.update\<close>, deleted with \<open>AList.delete\<close>); the other maps
  are only looked up, stored to and deleted from.

  A \<open>*Tracking\<close> is an index into \<open>heap\<close>, the Tracking objects allocated so far:
  \<open>&Tracking{...}\<close> appends to \<open>heap\<close> and yields the new index, so one object is shared by
  the tracking table and every subscription bucket that holds its index.
\<close>

record InMemoryStore =
  datastore :: "string \<rightharpoonup> (string \<times> Data) list"
  tracking :: "string \<rightharpoonup> nat"
  subscription :: "Key \<rightharpoonup> nat list"
  nextId :: int64
  heap :: "Tracking list"

type_synonym sends = "(chan \<times> Reply) list"

definition Reply_zero :: Reply where
  "Reply_zero = \<lparr>rp_RequestId = [], rp_Node = [], rp_Datapoints = []\<rparr>"

definition NewInMemoryStore :: InMemoryStore where
  "NewInMemoryStore =
     \<lparr>datastore = Map.empty, tracking = Map.empty, subscription = Map.empty,
      nextId = 0, heap = []\<rparr>"

subsection \<open>Request ids\<close>

text \<open>
  \<open>fmt.Sprintf("REQ%07d", newId)\<close>: the decimal digits of the value, padded with zeros on
  the left to a width of at least 7; for a negative value the sign comes first and counts
  for the width.
\<close>

definition digit :: "nat \<Rightarrow> char" where
  "digit d = ''0123456789'' ! d"

fun decimal :: "nat \<Rightarrow> string" where
  "decimal n = (if n < 10 then [digit n] else decimal (n div 10) @ [digit (n mod 10)])"

declare decimal.simps [simp del]

definition zero_pad :: "nat \<Rightarrow> string \<Rightarrow> string" where
  "zero_pad w s = replicate (w - length s) (CHR ''0'') @ s"

definition fmt_07d :: "int \<Rightarrow> string" where
  "fmt_07d i =
     (if i < 0 then CHR ''-'' # zero_pad 6 (decimal (nat (- i)))
      else zero_pad 7 (decimal (nat i)))"

definition requestId :: "InMemoryStore \<Rightarrow> string \<times> InMemoryStore" where
  "requestId m =
     (let newId = nextId m + 1
      in (''REQ'' @ fmt_07d (sint newId), m\<lparr>nextId := newId\<rparr>))"

subsection \<open>publish\<close>

text \<open>
  One reply for each pointer of the key's bucket, in bucket order, sent on the channel of
  the Tracking it points to.  The pointers of a bucket point to allocated Trackings in
  every store the operations build (\<open>store_inv\<close> below), so \<open>heap m ! t\<close> is the object.
\<close>

definition publish :: "InMemoryStore \<Rightarrow> Key \<Rightarrow> string \<Rightarrow> int64 \<Rightarrow> sends" where
  "publish m key val timestamp =
     (case subscription m key of
        None \<Rightarrow> []
      | Some ts \<Rightarrow>
          map (\<lambda>t.
                 (t_reply (heap m ! t),
                  \<lparr>rp_RequestId = t_requestId (heap m ! t),
                   rp_Node = k_Node key,
                   rp_Datapoints =
                     [\<lparr>d_Measurement = k_Measurement key, d_Value = val,
                       d_Timestamp = timestamp\<rparr>]\<rparr>))
              ts)"

subsection \<open>Subscribe\<close>

text \<open>
  The loop of lines 63-67: \<open>t\<close> is the pointer; each round appends the key to \<open>t.subs\<close>
  (through the pointer) and the pointer to the key's bucket (a missing bucket reads as the
  nil slice).
\<close>

fun subscribe_loop :: "string \<Rightarrow> nat \<Rightarrow> string list \<Rightarrow> InMemoryStore \<Rightarrow> InMemoryStore" where
  "subscribe_loop node t [] m = m"
| "subscribe_loop node t (me # mes) m =
     (let k = \<lparr>k_Node = node, k_Measurement = me\<rparr>;
          obj = heap m ! t;
          m1 = m\<lparr>heap := (heap m)[t := obj\<lparr>t_subs := t_subs obj @ [k]\<rparr>]\<rparr>;
          m2 = m1\<lparr>subscription :=
                    (subscription m1)
                      (k \<mapsto> (case subscription m1 k of None \<Rightarrow> [] | Some ts \<Rightarrow> ts) @ [t])\<rparr>
      in subscribe_loop node t mes m2)"

definition Subscribe ::
  "InMemoryStore \<Rightarrow> Request \<Rightarrow> (error option \<times> Reply) \<times> sends \<times> InMemoryStore" where
  "Subscribe m0 r =
     (let (rId, m) = requestId m0;
          reply = \<lparr>rp_RequestId = rId, rp_Node = [], rp_Datapoints = []\<rparr>
      in case datastore m (rq_Node r) of
           Some _ \<Rightarrow>
             (let t = length (heap m);
                  m1 = m\<lparr>heap := heap m @
                          [\<lparr>t_requestId = rId, t_reply = rq_ReplyChan r, t_subs = []\<rparr>]\<rparr>;
                  m2 = subscribe_loop (rq_Node r) t (rq_Measurements r) m1;
                  m3 = m2\<lparr>tracking := (tracking m2)(rId \<mapsto> t)\<rparr>
              in ((None, reply), [], m3))
         | None \<Rightarrow>
             ((Some (errors_New ''Could not fetch requested data, node does not exists''),
               reply), [], m))"

subsection \<open>ReadImmediate\<close>

fun read_loop :: "(string \<times> Data) list \<Rightarrow> string list \<Rightarrow> Data list \<Rightarrow> Data list" where
  "read_loop node [] data = data"
| "read_loop node (me # mes) data =
     (case map_of node me of
        Some v \<Rightarrow> read_loop node mes (data @ [v])
      | None \<Rightarrow> read_loop node mes data)"

definition ReadImmediate ::
  "InMemoryStore \<Rightarrow> Request \<Rightarrow> (error option \<times> Reply) \<times> sends \<times> InMemoryStore" where
  "ReadImmediate m r =
     (case datastore m (rq_Node r) of
        Some node \<Rightarrow>
          (let data = read_loop node (rq_Measurements r) [];
               reply = \<lparr>rp_RequestId = [], rp_Node = rq_Node r, rp_Datapoints = data\<rparr>
           in ((None, Reply_zero), [(rq_ReplyChan r, reply)], m))
      | None \<Rightarrow>
          ((Some (errors_New ''Could not find requested information''), Reply_zero), [], m))"

subsection \<open>Write\<close>

fun keymap :: "Data list \<Rightarrow> string set" where
  "keymap [] = {}"
| "keymap (d # dataslice) = insert (d_Measurement d) (keymap dataslice)"

text \<open>
  \<open>node\<close> of line 110 is the map stored under \<open>w.Node\<close> itself (a Go map is a reference), so
  what is done to \<open>node\<close> is done to \<open>m.datastore[w.Node]\<close>; from line 114 on it exists.
\<close>

definition node_of :: "InMemoryStore \<Rightarrow> string \<Rightarrow> (string \<times> Data) list" where
  "node_of m n = (case datastore m n of None \<Rightarrow> [] | Some node \<Rightarrow> node)"

text \<open>
  The loop of lines 116-121 ranges over the entries of \<open>node\<close> while deleting from it; Go
  does not produce an entry that was removed before the loop reached it.
\<close>

fun prune_loop ::
  "string \<Rightarrow> string set \<Rightarrow> (string \<times> Data) list \<Rightarrow> InMemoryStore \<Rightarrow> InMemoryStore" where
  "prune_loop n datapoints [] m = m"
| "prune_loop n datapoints ((k, datas) # rest) m =
     (if map_of (node_of m n) k = None then prune_loop n datapoints rest m
      else if d_Measurement datas \<notin> datapoints then
        prune_loop n datapoints rest
          (m\<lparr>subscription :=
               (subscription m)(\<lparr>k_Node = n, k_Measurement = d_Measurement datas\<rparr> := None),
             datastore :=
               (datastore m)(n \<mapsto> AList.delete (d_Measurement datas) (node_of m n))\<rparr>)
      else prune_loop n datapoints rest m)"

text \<open>
  The loop of lines 123-131.  \<open>now i\<close> is what \<open>time.Now().Unix()\<close> returns when it is
  called for the datapoint at index \<open>i\<close> of the batch.
\<close>

definition stamp :: "(nat \<Rightarrow> int64) \<Rightarrow> nat \<Rightarrow> Data \<Rightarrow> Data" where
  "stamp now i data = (if d_Timestamp data <s 1 then data\<lparr>d_Timestamp := now i\<rparr> else data)"

fun write_loop ::
  "(nat \<Rightarrow> int64) \<Rightarrow> nat \<Rightarrow> string \<Rightarrow> Data list \<Rightarrow> InMemoryStore \<Rightarrow> sends \<times> InMemoryStore" where
  "write_loop now i n [] m = ([], m)"
| "write_loop now i n (d # rest) m =
     (let data = stamp now i d;
          m1 = m\<lparr>datastore :=
                   (datastore m)(n \<mapsto> AList.update (d_Measurement data) data (node_of m n))\<rparr>;
          out = publish m1 \<lparr>k_Node = n, k_Measurement = d_Measurement data\<rparr>
                  (d_Value data) (d_Timestamp data);
          (outs, m2) = write_loop now (Suc i) n rest m1
      in (out @ outs, m2))"

definition Write ::
  "InMemoryStore \<Rightarrow> (nat \<Rightarrow> int64) \<Rightarrow> Write \<Rightarrow> (error option \<times> Reply) \<times> sends \<times> InMemoryStore" where
  "Write m0 now w =
     (let datapoints = keymap (w_Datapoints w);
          m1 = (case datastore m0 (w_Node w) of
                  None \<Rightarrow> m0\<lparr>datastore := (datastore m0)(w_Node w \<mapsto> [])\<rparr>
                | Some _ \<Rightarrow> m0);
          m2 = prune_loop (w_Node w) datapoints (node_of m1 (w_Node w)) m1;
          (out, m3) = write_loop now 0 (w_Node w) (w_Datapoints w) m2;
          (rId, m4) = requestId m3
      in ((None, \<lparr>rp_RequestId = rId, rp_Node = [], rp_Datapoints = []\<rparr>), out, m4))"

subsection \<open>Cancel and SourceList\<close>

definition Cancel :: "InMemoryStore \<Rightarrow> string \<Rightarrow> error option \<times> InMemoryStore" where
  "Cancel m rid =
     (case tracking m rid of
        Some _ \<Rightarrow> (None, m\<lparr>tracking := (tracking m)(rid := None)\<rparr>)
      | None \<Rightarrow> (Some (errors_New (''No subscription found for '' @ rid)), m))"

definition SourceList ::
  "InMemoryStore \<Rightarrow> string \<Rightarrow> (error option \<times> string list) \<times> InMemoryStore" where
  "SourceList m node =
     (case datastore m node of
        None \<Rightarrow> ((Some (errors_New (''Could not find node '' @ node)), []), m)
      | Some keystore \<Rightarrow> ((None, map fst keystore), m))"

subsection \<open>Histories\<close>

text \<open>
  A call of one of the store's operations.  \<open>step\<close> performs it and returns the request
  ids it handed out (the \<open>RequestId\<close> of the returned \<open>Reply\<close> of \<open>Subscribe\<close> and \<open>Write\<close>)
  and the new store; \<open>run\<close> performs a list of calls one after the other.
\<close>

datatype op =
    Op_Subscribe Request
  | Op_ReadImmediate Request
  | Op_Write "nat \<Rightarrow> int64" Write
  | Op_Cancel string
  | Op_SourceList string

fun step :: "InMemoryStore \<Rightarrow> op \<Rightarrow> string list \<times> InMemoryStore" where
  "step m (Op_Subscribe r) =
     (let ((e, reply), out, m') = Subscribe m r in ([rp_RequestId reply], m'))"
| "step m (Op_ReadImmediate r) =
     (let ((e, reply), out, m') = ReadImmediate m r in ([], m'))"
| "step m (Op_Write now w) =
     (let ((e, reply), out, m') = Write m now w in ([rp_RequestId reply], m'))"
| "step m (Op_Cancel rid) = (let (e, m') = Cancel m rid in ([], m'))"
| "step m (Op_SourceList node) = (let ((e, keys), m') = SourceList m node in ([], m'))"

fun run :: "InMemoryStore \<Rightarrow> op list \<Rightarrow> string list \<times> InMemoryStore" where
  "run m [] = ([], m)"
| "run m (c # cs) =
     (let (ids, m1) = step m c; (ids', m2) = run m1 cs in (ids @ ids', m2))"

text \<open>The nodes a history has made a Write to.\<close>

fun written :: "op list \<Rightarrow> string set" where
  "written [] = {}"
| "written (Op_Write now w # cs) = insert (w_Node w) (written cs)"
| "written (c # cs) = written cs"

text \<open>The number of calls of a history that hand out a request id.\<close>

fun mints :: "op list \<Rightarrow> nat" where
  "mints [] = 0"
| "mints (Op_Subscribe r # cs) = Suc (mints cs)"
| "mints (Op_Write now w # cs) = Suc (mints cs)"
| "mints (c # cs) = mints cs"

subsection \<open>Invariants of the store\<close>

text \<open>
  Every entry of a node's map is stored under the measurement name of its value
  (line 128), and every Tracking pointer held by the subscription index or the tracking
  table points to an allocated object.
\<close>

definition keyed :: "(string \<times> Data) list \<Rightarrow> bool" where
  "keyed node = list_all (\<lambda>(k, d). d_Measurement d = k) node"

definition store_inv :: "InMemoryStore \<Rightarrow> bool" where
  "store_inv m \<longleftrightarrow>
     (\<forall>n node. datastore m n = Some node \<longrightarrow> keyed node) \<and>
     (\<forall>k ts. subscription m k = Some ts \<longrightarrow> (\<forall>t \<in> set ts. t < length (heap m))) \<and>
     (\<forall>rid t. tracking m rid = Some t \<longrightarrow> t < length (heap m))"

subsection \<open>Reading a decimal rendering back\<close>

definition digit_val :: "char \<Rightarrow> nat" where
  "digit_val c = of_char c - 48"

definition undecimal :: "string \<Rightarrow> nat" where
  "undecimal s = foldl (\<lambda>a c. 10 * a + digit_val c) 0 s"

text \<open>The rendering of a number in exactly \<open>w\<close> digits (its last \<open>w\<close> digits).\<close>

fun fixed_decimal :: "nat \<Rightarrow> nat \<Rightarrow> string" where
  "fixed_decimal 0 n = []"
| "fixed_decimal (Suc w) n = fixed_decimal w (n div 10) @ [digit (n mod 10)]"

text \<open>The request id minted when the counter has reached \<open>c\<close>.\<close>

definition id_at :: "int64 \<Rightarrow> string" where
  "id_at c = ''REQ'' @ fmt_07d (sint c)"

subsection \<open>Example inputs\<close>

definition ex_temp :: Data where
  "ex_temp = \<lparr>d_Measurement = ''temp'', d_Value = ''21'', d_Timestamp = 5\<rparr>"

definition ex_temp2 :: Data where
  "ex_temp2 = \<lparr>d_Measurement = ''temp'', d_Value = ''22'', d_Timestamp = 0\<rparr>"

definition ex_temp3 :: Data where
  "ex_temp3 = \<lparr>d_Measurement = ''temp'', d_Value = ''23'', d_Timestamp = 6\<rparr>"

definition ex_hum :: Data where
  "ex_hum = \<lparr>d_Measurement = ''hum'', d_Value = ''40'', d_Timestamp = 7\<rparr>"

definition ex_now :: "nat \<Rightarrow> int64" where
  "ex_now i = 100"

definition ex_write :: Write where
  "ex_write = \<lparr>w_Node = ''A'', w_Datapoints = [ex_temp, ex_hum]\<rparr>"

definition ex_request :: Request where
  "ex_request = \<lparr>rq_Node = ''A'', rq_Measurements = [''temp''], rq_ReplyChan = 3\<rparr>"

text \<open>
  The store after \<open>Write\<close> of \<open>ex_write\<close> to a new store (\<open>ex_store1\<close>) and after
  \<open>Subscribe\<close> of \<open>ex_request\<close> to that (\<open>ex_store\<close>).
\<close>

definition ex_store1 :: InMemoryStore where
  "ex_store1 =
     \<lparr>datastore = [''A'' \<mapsto> [(''temp'', ex_temp), (''hum'', ex_hum)]],
      tracking = Map.empty,
      subscription = Map.empty,
      nextId = 1,
      heap = []\<rparr>"

definition ex_store :: InMemoryStore where
  "ex_store =
     \<lparr>datastore = [''A'' \<mapsto> [(''temp'', ex_temp), (''hum'', ex_hum)]],
      tracking = [''REQ0000002'' \<mapsto> 0],
      subscription = [\<lparr>k_Node = ''A'', k_Measurement = ''temp''\<rparr> \<mapsto> [0]],
      nextId = 2,
      heap = [\<lparr>t_requestId = ''REQ0000002'', t_reply = 3,
               t_subs = [\<lparr>k_Node = ''A'', k_Measurement = ''temp''\<rparr>]\<rparr>]\<rparr>"

definition ex_wind :: Data where
  "ex_wind = \<lparr>d_Measurement = ''wind'', d_Value = ''3'', d_Timestamp = 8\<rparr>"

definition ex_request_hw :: Request where
  "ex_request_hw = \<lparr>rq_Node = ''A'', rq_Measurements = [''hum'', ''wind''], rq_ReplyChan = 4\<rparr>"

definition ex_request_tt :: Request where
  "ex_request_tt = \<lparr>rq_Node = ''A'', rq_Measurements = [''temp'', ''temp''], rq_ReplyChan = 3\<rparr>"

definition ex_write_temp :: Write where
  "ex_write_temp = \<lparr>w_Node = ''A'', w_Datapoints = [ex_temp3]\<rparr>"

definition ex_store_hw :: InMemoryStore where
  "ex_store_hw =
     \<lparr>datastore = [''A'' \<mapsto> [(''temp'', ex_temp), (''hum'', ex_hum)]],
      tracking = [''REQ0000002'' \<mapsto> 0],
      subscription = [\<lparr>k_Node = ''A'', k_Measurement = ''hum''\<rparr> \<mapsto> [0],
                      \<lparr>k_Node = ''A'', k_Measurement = ''wind''\<rparr> \<mapsto> [0]],
      nextId = 2,
      heap = [\<lparr>t_requestId = ''REQ0000002'', t_reply = 4,
               t_subs = [\<lparr>k_Node = ''A'', k_Measurement = ''hum''\<rparr>,
                         \<lparr>k_Node = ''A'', k_Measurement = ''wind''\<rparr>]\<rparr>]\<rparr>"

definition ex_request7 :: Request where
  "ex_request7 = \<lparr>rq_Node = ''A'', rq_Measurements = [''temp''], rq_ReplyChan = 7\<rparr>"

subsection \<open>Stores that differ in the tracking table and the counter only\<close>

definition agree :: "InMemoryStore \<Rightarrow> InMemoryStore \<Rightarrow> bool" where
  "agree m m' \<longleftrightarrow>
     datastore m = datastore m' \<and> subscription m = subscription m' \<and> heap m = heap m'"

subsection \<open>The first step of Write\<close>

text \<open>
  Lines 110-114 on their own, as \<open>Write\<close> does them: the node's map is created when it is
  missing.
\<close>

definition Write_pre :: "InMemoryStore \<Rightarrow> string \<Rightarrow> InMemoryStore" where
  "Write_pre m n =
     (case datastore m n of None \<Rightarrow> m\<lparr>datastore := (datastore m)(n \<mapsto> [])\<rparr> | Some _ \<Rightarrow> m)"

section \<open>Properties\<close>

subsection \<open>Evaluation of the examples\<close>

lemmas ex_defs =
  ex_temp_def ex_temp2_def ex_temp3_def ex_hum_def ex_now_def ex_write_def ex_request_def
  ex_store1_def ex_store_def
  ex_wind_def ex_request_hw_def ex_request_tt_def ex_write_temp_def ex_store_hw_def ex_request7_def

lemmas eval_defs =
  Subscribe_def Write_def ReadImmediate_def Cancel_def SourceList_def
  NewInMemoryStore_def requestId_def node_of_def stamp_def publish_def
  fmt_07d_def zero_pad_def decimal.simps digit_def Reply_zero_def Let_def
  word_sless_alt eval_nat_numeral

lemma ex_store1_built:
  "Write NewInMemoryStore ex_now ex_write =
     ((None, \<lparr>rp_RequestId = ''REQ0000001'', rp_Node = [], rp_Datapoints = []\<rparr>), [],
      ex_store1)"
  by (simp add: ex_defs eval_defs)

lemma ex_store_built:
  "Subscribe ex_store1 ex_request =
     ((None, \<lparr>rp_RequestId = ''REQ0000002'', rp_Node = [], rp_Datapoints = []\<rparr>), [],
      ex_store)"
  by (simp add: ex_defs eval_defs)

lemma ex_store_run:
  "run NewInMemoryStore [Op_Write ex_now ex_write, Op_Subscribe ex_request] =
     ([''REQ0000001'', ''REQ0000002''], ex_store)"
  by (simp add: ex_store1_built ex_store_built)

subsection \<open>ReadImmediate\<close>

lemma read_loop_acc:
  "read_loop node mes data =
     data @ map (\<lambda>me. the (map_of node me)) (filter (\<lambda>me. map_of node me \<noteq> None) mes)"
  by (induction mes arbitrary: data) (auto split: option.splits)

text \<open>
  C7.  ReadImmediate on a node that is absent from the value table returns the not-found
  error and sends nothing.  On a node that is present it returns no error and sends
  exactly one reply on the caller's channel: the current Data of every requested
  measurement that exists for the node, in request order; requested measurements that do
  not exist are left out without an error.  The send is part of the call.
\<close>

theorem ReadImmediate_reply:
  "(datastore m (rq_Node r) = None \<longrightarrow>
      ReadImmediate m r =
        ((Some (errors_New ''Could not find requested information''), Reply_zero), [], m)) \<and>
   (\<forall>node. datastore m (rq_Node r) = Some node \<longrightarrow>
      ReadImmediate m r =
        ((None, Reply_zero),
         [(rq_ReplyChan r,
           \<lparr>rp_RequestId = [], rp_Node = rq_Node r,
            rp_Datapoints =
              map (\<lambda>me. the (map_of node me))
                (filter (\<lambda>me. map_of node me \<noteq> None) (rq_Measurements r))\<rparr>)],
         m))"
  by (simp add: ReadImmediate_def read_loop_acc)

theorem ReadImmediate_reply_witness:
  "datastore NewInMemoryStore (rq_Node ex_request) = None \<and>
   ReadImmediate NewInMemoryStore ex_request =
     ((Some (errors_New ''Could not find requested information''), Reply_zero), [],
      NewInMemoryStore) \<and>
   datastore ex_store
     (rq_Node \<lparr>rq_Node = ''A'', rq_Measurements = [''hum'', ''wind'', ''temp''],
               rq_ReplyChan = 9\<rparr>) =
     Some [(''temp'', ex_temp), (''hum'', ex_hum)] \<and>
   ReadImmediate ex_store
     \<lparr>rq_Node = ''A'', rq_Measurements = [''hum'', ''wind'', ''temp''], rq_ReplyChan = 9\<rparr> =
     ((None, Reply_zero),
      [(9, \<lparr>rp_RequestId = [], rp_Node = ''A'', rp_Datapoints = [ex_hum, ex_temp]\<rparr>)],
      ex_store)"
  using ReadImmediate_reply [of NewInMemoryStore ex_request]
    ReadImmediate_reply [of ex_store
      "\<lparr>rq_Node = ''A'', rq_Measurements = [''hum'', ''wind'', ''temp''], rq_ReplyChan = 9\<rparr>"]
  by (simp add: NewInMemoryStore_def ex_store_def ex_request_def)

text \<open>
  C10.  A successful ReadImmediate returns the zero Reply (no node, no request id, no
  datapoints) beside the nil error; the one reply it sends has the empty string as its
  RequestId, and the counter is not advanced: no request id is minted for a read.
\<close>

theorem ReadImmediate_no_request_id:
  "fst (fst (ReadImmediate m r)) = None \<Longrightarrow>
     snd (fst (ReadImmediate m r)) = \<lparr>rp_RequestId = [], rp_Node = [], rp_Datapoints = []\<rparr> \<and>
     (\<forall>(c, reply) \<in> set (fst (snd (ReadImmediate m r))). rp_RequestId reply = []) \<and>
     length (fst (snd (ReadImmediate m r))) = 1 \<and>
     nextId (snd (snd (ReadImmediate m r))) = nextId m"
  by (auto simp: ReadImmediate_def Reply_zero_def Let_def split: option.splits)

theorem ReadImmediate_no_request_id_witness:
  "fst (fst (ReadImmediate ex_store ex_request)) = None \<and>
   snd (fst (ReadImmediate ex_store ex_request)) =
     \<lparr>rp_RequestId = [], rp_Node = [], rp_Datapoints = []\<rparr> \<and>
   fst (snd (ReadImmediate ex_store ex_request)) =
     [(3, \<lparr>rp_RequestId = [], rp_Node = ''A'', rp_Datapoints = [ex_temp]\<rparr>)] \<and>
   nextId (snd (snd (ReadImmediate ex_store ex_request))) = 2"
  using ReadImmediate_no_request_id [of ex_store ex_request]
  by (simp add: ReadImmediate_def Reply_zero_def ex_store_def ex_request_def)

subsection \<open>Cancel\<close>

text \<open>The sends of Write depend on the value table, the index and the heap only.\<close>

lemma agree_node_of: "agree m m' \<Longrightarrow> node_of m n = node_of m' n"
  by (simp add: agree_def node_of_def)

lemma agree_publish: "agree m m' \<Longrightarrow> publish m k v ts = publish m' k v ts"
  by (simp add: agree_def publish_def split: option.splits)

lemma agree_prune_loop: "agree m m' \<Longrightarrow> agree (prune_loop n dps es m) (prune_loop n dps es m')"
proof (induction es arbitrary: m m')
  case Nil
  then show ?case by simp
next
  case (Cons e es)
  obtain k datas where e: "e = (k, datas)" by (cases e)
  note n = agree_node_of [OF Cons.prems, of n]
  let ?u = "\<lambda>m. m\<lparr>subscription :=
               (subscription m)(\<lparr>k_Node = n, k_Measurement = d_Measurement datas\<rparr> := None),
             datastore :=
               (datastore m)(n \<mapsto> AList.delete (d_Measurement datas) (node_of m n))\<rparr>"
  have u: "agree (?u m) (?u m')"
    using Cons.prems n by (simp add: agree_def)
  show ?case
    unfolding e prune_loop.simps n
    using Cons.IH [OF Cons.prems] Cons.IH [OF u] by (simp add: n)
qed

lemma agree_write_loop:
  "agree m m' \<Longrightarrow>
     fst (write_loop now i n ds m) = fst (write_loop now i n ds m') \<and>
     agree (snd (write_loop now i n ds m)) (snd (write_loop now i n ds m'))"
proof (induction ds arbitrary: i m m')
  case Nil
  then show ?case by simp
next
  case (Cons d ds)
  note n = agree_node_of [OF Cons.prems, of n]
  let ?data = "stamp now i d"
  let ?u = "\<lambda>m. m\<lparr>datastore :=
                   (datastore m)(n \<mapsto> AList.update (d_Measurement ?data) ?data (node_of m n))\<rparr>"
  have u: "agree (?u m) (?u m')"
    using Cons.prems n by (simp add: agree_def)
  show ?case
    using Cons.IH [OF u, of "Suc i"] agree_publish [OF u]
    by (simp add: Let_def split_beta n)
qed

lemma agree_Write:
  assumes "agree m m'"
  shows "fst (snd (Write m now w)) = fst (snd (Write m' now w))"
proof -
  let ?n = "w_Node w"
  let ?pre = "\<lambda>m. case datastore m ?n of None \<Rightarrow> m\<lparr>datastore := (datastore m)(?n \<mapsto> [])\<rparr> | Some _ \<Rightarrow> m"
  have a: "agree (?pre m) (?pre m')"
    using assms by (simp add: agree_def split: option.splits)
  note n = agree_node_of [OF a, of ?n]
  show ?thesis
    unfolding Write_def Let_def split_beta n
    using agree_write_loop [OF agree_prune_loop [OF a]]
    by simp
qed

lemma Write_tracking_sends:
  "fst (snd (Write (m\<lparr>tracking := T\<rparr>) now w)) = fst (snd (Write m now w))"
  by (rule agree_Write) (simp add: agree_def)

text \<open>
  C5.  Cancel returns the no-subscription-found error exactly when the request id is not
  in the tracking table.  When it is there, Cancel removes that entry and nothing else, so
  a second Cancel of the same id fails; the subscription index and the Tracking objects
  are as before, and every later Write sends exactly what it would have sent without the
  Cancel, also on the canceled Tracking's channel.
\<close>

theorem Cancel_keeps_index:
  "(fst (Cancel m rid) \<noteq> None \<longleftrightarrow> tracking m rid = None) \<and>
   (tracking m rid \<noteq> None \<longrightarrow>
      Cancel m rid = (None, m\<lparr>tracking := (tracking m)(rid := None)\<rparr>) \<and>
      fst (Cancel (snd (Cancel m rid)) rid) \<noteq> None \<and>
      subscription (snd (Cancel m rid)) = subscription m \<and>
      heap (snd (Cancel m rid)) = heap m \<and>
      (\<forall>now w. fst (snd (Write (snd (Cancel m rid)) now w)) = fst (snd (Write m now w))))"
  by (auto simp: Cancel_def Write_tracking_sends split: option.splits)

theorem Cancel_keeps_index_witness:
  "tracking ex_store ''REQ0000002'' \<noteq> None \<and>
   fst (Cancel ex_store ''REQ0000002'') = None \<and>
   fst (Cancel (snd (Cancel ex_store ''REQ0000002'')) ''REQ0000002'') \<noteq> None \<and>
   subscription (snd (Cancel ex_store ''REQ0000002'')) \<lparr>k_Node = ''A'', k_Measurement = ''temp''\<rparr>
     = Some [0] \<and>
   fst (snd (Write (snd (Cancel ex_store ''REQ0000002'')) ex_now
               \<lparr>w_Node = ''A'', w_Datapoints = [ex_temp2]\<rparr>)) =
     [(3, \<lparr>rp_RequestId = ''REQ0000002'', rp_Node = ''A'',
           rp_Datapoints = [ex_temp2\<lparr>d_Timestamp := 100\<rparr>]\<rparr>)]"
  using Cancel_keeps_index [of ex_store "''REQ0000002''"]
  by (simp add: ex_defs eval_defs)

subsection \<open>Failed operations\<close>

text \<open>
  C6, as amended.  A failed ReadImmediate, Cancel or SourceList leaves the whole store as
  it was.  A failed Subscribe leaves the value table, the subscription index, the tracking
  table and the Tracking objects as they were, but it has advanced the request-id counter
  by one: the id is minted on line 51, before the node is looked up.
\<close>

theorem failed_operation_state:
  "(fst (fst (ReadImmediate m r)) \<noteq> None \<longrightarrow> snd (snd (ReadImmediate m r)) = m) \<and>
   (fst (Cancel m rid) \<noteq> None \<longrightarrow> snd (Cancel m rid) = m) \<and>
   (fst (fst (SourceList m n)) \<noteq> None \<longrightarrow> snd (SourceList m n) = m) \<and>
   (fst (fst (Subscribe m r)) \<noteq> None \<longrightarrow>
      snd (snd (Subscribe m r)) = m\<lparr>nextId := nextId m + 1\<rparr>)"
  by (auto simp: ReadImmediate_def Cancel_def SourceList_def Subscribe_def requestId_def Let_def
      split: option.splits)

theorem failed_operation_state_witness:
  "fst (fst (ReadImmediate NewInMemoryStore ex_request)) \<noteq> None \<and>
   snd (snd (ReadImmediate NewInMemoryStore ex_request)) = NewInMemoryStore \<and>
   fst (Cancel NewInMemoryStore ''REQ0000002'') \<noteq> None \<and>
   snd (Cancel NewInMemoryStore ''REQ0000002'') = NewInMemoryStore \<and>
   fst (fst (SourceList NewInMemoryStore ''A'')) \<noteq> None \<and>
   snd (SourceList NewInMemoryStore ''A'') = NewInMemoryStore \<and>
   fst (fst (Subscribe NewInMemoryStore ex_request)) \<noteq> None \<and>
   snd (snd (Subscribe NewInMemoryStore ex_request)) = NewInMemoryStore\<lparr>nextId := 1\<rparr>"
  using failed_operation_state [of NewInMemoryStore ex_request "''REQ0000002''" "''A''"]
  by (simp add: ex_defs eval_defs)

text \<open>
  C6 as stated fails: Subscribe on a new store returns the node-not-found error and the
  counter has moved from 0 to 1.
\<close>

theorem failed_Subscribe_counterexample:
  "fst (fst (Subscribe NewInMemoryStore ex_request)) =
     Some (errors_New ''Could not fetch requested data, node does not exists'') \<and>
   nextId NewInMemoryStore = 0 \<and>
   nextId (snd (snd (Subscribe NewInMemoryStore ex_request))) = 1 \<and>
   snd (snd (Subscribe NewInMemoryStore ex_request)) \<noteq> NewInMemoryStore"
  by (simp add: ex_defs eval_defs)

subsection \<open>The loops, field by field\<close>

lemma stamp_Measurement [simp]: "d_Measurement (stamp now i d) = d_Measurement d"
  by (simp add: stamp_def)

lemma stamp_Value [simp]: "d_Value (stamp now i d) = d_Value d"
  by (simp add: stamp_def)

lemma keymap_set: "keymap ds = d_Measurement ` set ds"
  by (induction ds) auto

lemma subscribe_loop_frame:
  "datastore (subscribe_loop n t mes m) = datastore m \<and>
   tracking (subscribe_loop n t mes m) = tracking m \<and>
   nextId (subscribe_loop n t mes m) = nextId m \<and>
   length (heap (subscribe_loop n t mes m)) = length (heap m)"
  by (induction mes arbitrary: m) (simp_all add: Let_def)

lemma subscribe_loop_heap:
  "t < length (heap m) \<Longrightarrow>
     heap (subscribe_loop n t mes m) =
       (heap m)[t := (heap m ! t)
                  \<lparr>t_subs := t_subs (heap m ! t) @
                     map (\<lambda>me. \<lparr>k_Node = n, k_Measurement = me\<rparr>) mes\<rparr>]"
  by (induction mes arbitrary: m) (simp_all add: Let_def)

lemma subscribe_loop_subscription_aux:
  "subscription (subscribe_loop n t mes m) \<lparr>k_Node = a, k_Measurement = b\<rparr> =
     (if a = n \<and> b \<in> set mes
      then Some ((case subscription m \<lparr>k_Node = a, k_Measurement = b\<rparr> of
                    None \<Rightarrow> [] | Some ts \<Rightarrow> ts) @
                 replicate (count_list mes b) t)
      else subscription m \<lparr>k_Node = a, k_Measurement = b\<rparr>)"
  by (induction mes arbitrary: m)
    (auto simp: Let_def replicate_append_same split: option.splits)

lemma subscribe_loop_subscription:
  "subscription (subscribe_loop n t mes m) k =
     (if k_Node k = n \<and> k_Measurement k \<in> set mes
      then Some ((case subscription m k of None \<Rightarrow> [] | Some ts \<Rightarrow> ts) @
                 replicate (count_list mes (k_Measurement k)) t)
      else subscription m k)"
  using subscribe_loop_subscription_aux [of n t mes m "k_Node k" "k_Measurement k"]
  by (cases k) simp

lemma prune_loop_frame:
  "tracking (prune_loop n dps es m) = tracking m \<and>
   nextId (prune_loop n dps es m) = nextId m \<and>
   heap (prune_loop n dps es m) = heap m"
  by (induction n dps es m rule: prune_loop.induct) simp_all

lemma prune_loop_other_node:
  "n' \<noteq> n \<Longrightarrow> datastore (prune_loop n dps es m) n' = datastore m n'"
  by (induction n dps es m rule: prune_loop.induct) simp_all

lemma prune_loop_node_present:
  "datastore m n \<noteq> None \<Longrightarrow> datastore (prune_loop n dps es m) n \<noteq> None"
  by (induction n dps es m rule: prune_loop.induct) simp_all

lemma node_of_upd [simp]:
  "node_of (m\<lparr>datastore := D(n \<mapsto> nd)\<rparr>) n = nd"
  by (simp add: node_of_def)

lemma keyed_Nil [simp]: "keyed []"
  by (simp add: keyed_def)

lemma keyed_node_of:
  "\<forall>n' nd. datastore m n' = Some nd \<longrightarrow> keyed nd \<Longrightarrow> keyed (node_of m n)"
  by (simp add: node_of_def split: option.splits)

lemma node_of_subscription [simp]:
  "node_of (m\<lparr>subscription := S\<rparr>) n = node_of m n"
  by (simp add: node_of_def)

lemma prune_loop_node:
  "keyed es \<Longrightarrow>
     map_of (node_of (prune_loop n dps es m) n) k =
       (if k \<in> fst ` set es \<and> k \<notin> dps then None else map_of (node_of m n) k)"
proof (induction es arbitrary: m k)
  case Nil
  then show ?case by simp
next
  case (Cons e es)
  obtain k' datas where e: "e = (k', datas)" by (cases e)
  from Cons.prems have kd: "d_Measurement datas = k'" and ks: "keyed es"
    by (simp_all add: e keyed_def)
  show ?case
    by (auto simp: e kd Cons.IH [OF ks] delete_conv')
qed

lemma prune_loop_subscription:
  "keyed es \<Longrightarrow>
     subscription (prune_loop n dps es m) key =
       (if k_Node key = n \<and> k_Measurement key \<in> fst ` set es \<and> k_Measurement key \<notin> dps \<and>
           map_of (node_of m n) (k_Measurement key) \<noteq> None
        then None else subscription m key)"
proof (induction es arbitrary: m key)
  case Nil
  then show ?case by simp
next
  case (Cons e es)
  obtain k' datas where e: "e = (k', datas)" by (cases e)
  from Cons.prems have kd: "d_Measurement datas = k'" and ks: "keyed es"
    by (simp_all add: e keyed_def)
  have k: "\<And>key. key = \<lparr>k_Node = n, k_Measurement = k'\<rparr> \<longleftrightarrow>
      k_Node key = n \<and> k_Measurement key = k'"
    subgoal for key by (cases key) simp
    done
  show ?case
    by (auto simp: e kd Cons.IH [OF ks] delete_conv' k)
qed

lemma keyed_delete: "keyed nd \<Longrightarrow> keyed (AList.delete k nd)"
  by (induction nd) (auto simp: keyed_def)

lemma keyed_update: "keyed nd \<Longrightarrow> d_Measurement d = k \<Longrightarrow> keyed (AList.update k d nd)"
  by (induction nd) (auto simp: keyed_def)

lemma prune_loop_keyed:
  "\<forall>n' nd. datastore m n' = Some nd \<longrightarrow> keyed nd \<Longrightarrow>
     datastore (prune_loop n dps es m) n' = Some nd \<Longrightarrow> keyed nd"
proof (induction n dps es m arbitrary: nd rule: prune_loop.induct)
  case (1 n datapoints m)
  then show ?case by simp
next
  case (2 n datapoints k datas rest m)
  have del: "\<forall>n' nd. datastore (m\<lparr>subscription :=
               (subscription m)(\<lparr>k_Node = n, k_Measurement = d_Measurement datas\<rparr> := None),
             datastore :=
               (datastore m)(n \<mapsto> AList.delete (d_Measurement datas) (node_of m n))\<rparr>) n' = Some nd
          \<longrightarrow> keyed nd"
    using "2.prems"(1) by (auto simp: keyed_delete keyed_node_of)
  from 2 del show ?case
    by (auto split: if_splits)
qed

lemma write_loop_frame:
  "tracking (snd (write_loop now i n ds m)) = tracking m \<and>
   nextId (snd (write_loop now i n ds m)) = nextId m \<and>
   heap (snd (write_loop now i n ds m)) = heap m \<and>
   subscription (snd (write_loop now i n ds m)) = subscription m"
  by (induction ds arbitrary: i m) (simp_all add: Let_def split_beta)

lemma write_loop_other_node:
  "n' \<noteq> n \<Longrightarrow> datastore (snd (write_loop now i n ds m)) n' = datastore m n'"
  by (induction ds arbitrary: i m) (simp_all add: Let_def split_beta)

lemma write_loop_node_present:
  "datastore m n \<noteq> None \<Longrightarrow> datastore (snd (write_loop now i n ds m)) n \<noteq> None"
  by (induction ds arbitrary: i m) (simp_all add: Let_def split_beta)

lemma write_loop_node_other:
  "k \<notin> keymap ds \<Longrightarrow>
     map_of (node_of (snd (write_loop now i n ds m)) n) k = map_of (node_of m n) k"
  by (induction ds arbitrary: i m) (simp_all add: Let_def split_beta update_conv')

lemma write_loop_node_last:
  "d_Measurement d \<notin> keymap post \<Longrightarrow>
     map_of (node_of (snd (write_loop now i n (pre @ d # post) m)) n) (d_Measurement d) =
       Some (stamp now (i + length pre) d)"
proof (induction pre arbitrary: i m)
  case Nil
  then show ?case
    by (simp add: Let_def split_beta write_loop_node_other update_conv')
next
  case (Cons a pre)
  then show ?case by (simp add: Let_def split_beta)
qed

lemma write_loop_keyed:
  "\<forall>n' nd. datastore m n' = Some nd \<longrightarrow> keyed nd \<Longrightarrow>
     datastore (snd (write_loop now i n ds m)) n' = Some nd \<Longrightarrow> keyed nd"
proof (induction ds arbitrary: i m nd)
  case Nil
  then show ?case by simp
next
  case (Cons d ds)
  let ?data = "stamp now i d"
  let ?m1 = "m\<lparr>datastore :=
                   (datastore m)(n \<mapsto> AList.update (d_Measurement ?data) ?data (node_of m n))\<rparr>"
  have "\<forall>n' nd. datastore ?m1 n' = Some nd \<longrightarrow> keyed nd"
    using Cons.prems(1) by (auto simp: keyed_update keyed_node_of)
  from Cons.IH [OF this, of "Suc i" nd] Cons.prems(2) show ?case
    by (simp add: Let_def split_beta)
qed

lemma write_loop_sends:
  "(c, reply) \<in> set (fst (write_loop now i n ds m)) \<Longrightarrow>
     \<exists>x. rp_Datapoints reply = [x] \<and> d_Measurement x \<in> keymap ds \<and>
         subscription m \<lparr>k_Node = n, k_Measurement = d_Measurement x\<rparr> \<noteq> None"
proof (induction ds arbitrary: i m)
  case Nil
  then show ?case by simp
next
  case (Cons d ds)
  let ?data = "stamp now i d"
  let ?m1 = "m\<lparr>datastore :=
                   (datastore m)(n \<mapsto> AList.update (d_Measurement ?data) ?data (node_of m n))\<rparr>"
  from Cons.prems
  consider "(c, reply) \<in> set (publish ?m1 \<lparr>k_Node = n, k_Measurement = d_Measurement d\<rparr>
                (d_Value d) (d_Timestamp ?data))"
    | "(c, reply) \<in> set (fst (write_loop now (Suc i) n ds ?m1))"
    by (auto simp: Let_def split_beta)
  then show ?case
  proof cases
    case 1
    then show ?thesis
      by (cases "subscription m \<lparr>k_Node = n, k_Measurement = d_Measurement d\<rparr>")
        (auto simp: publish_def)
  next
    case 2
    from Cons.IH [OF 2] show ?thesis by auto
  qed
qed

subsection \<open>Write as a whole\<close>

lemma prune_loop_node_kept:
  "k \<in> dps \<Longrightarrow> map_of (node_of (prune_loop n dps es m) n) k = map_of (node_of m n) k"
  by (induction n dps es m rule: prune_loop.induct) (auto simp: delete_conv')

lemma prune_loop_subscription_kept:
  "k_Node key \<noteq> n \<or> k_Measurement key \<in> dps \<Longrightarrow>
     subscription (prune_loop n dps es m) key = subscription m key"
  by (induction n dps es m rule: prune_loop.induct) auto

lemma prune_loop_subscription_shrinks:
  "subscription (prune_loop n dps es m) key = None \<or>
   subscription (prune_loop n dps es m) key = subscription m key"
  by (induction n dps es m rule: prune_loop.induct) (auto split: if_splits)

lemma Write_pre_fields [simp]:
  "tracking (Write_pre m n) = tracking m"
  "subscription (Write_pre m n) = subscription m"
  "heap (Write_pre m n) = heap m"
  "nextId (Write_pre m n) = nextId m"
  "node_of (Write_pre m n) n' = node_of m n'"
  "datastore (Write_pre m n) n \<noteq> None"
  "n' \<noteq> n \<Longrightarrow> datastore (Write_pre m n) n' = datastore m n'"
  by (auto simp: Write_pre_def node_of_def split: option.splits)

lemma Write_pre_keyed:
  "\<forall>n' nd. datastore m n' = Some nd \<longrightarrow> keyed nd \<Longrightarrow>
   \<forall>n' nd. datastore (Write_pre m n) n' = Some nd \<longrightarrow> keyed nd"
  by (auto simp: Write_pre_def split: option.splits if_splits)

lemma Write_unfold:
  "Write m now w =
     ((None, \<lparr>rp_RequestId = fst (requestId m), rp_Node = [], rp_Datapoints = []\<rparr>),
      fst (write_loop now 0 (w_Node w) (w_Datapoints w)
             (prune_loop (w_Node w) (keymap (w_Datapoints w)) (node_of m (w_Node w))
                (Write_pre m (w_Node w)))),
      (snd (write_loop now 0 (w_Node w) (w_Datapoints w)
             (prune_loop (w_Node w) (keymap (w_Datapoints w)) (node_of m (w_Node w))
                (Write_pre m (w_Node w)))))\<lparr>nextId := nextId m + 1\<rparr>)"
  by (simp add: Write_def Let_def split_beta requestId_def Write_pre_def [symmetric]
      write_loop_frame prune_loop_frame)

lemma Write_frame:
  "tracking (snd (snd (Write m now w))) = tracking m \<and>
   heap (snd (snd (Write m now w))) = heap m \<and>
   nextId (snd (snd (Write m now w))) = nextId m + 1 \<and>
   fst (Write m now w) =
     (None, \<lparr>rp_RequestId = fst (requestId m), rp_Node = [], rp_Datapoints = []\<rparr>)"
  by (simp add: Write_unfold write_loop_frame prune_loop_frame)

lemma Write_other_node:
  "n' \<noteq> w_Node w \<Longrightarrow> datastore (snd (snd (Write m now w))) n' = datastore m n'"
  by (simp add: Write_unfold write_loop_other_node prune_loop_other_node)

lemma Write_node_present: "datastore (snd (snd (Write m now w))) (w_Node w) \<noteq> None"
  by (simp add: Write_unfold write_loop_node_present prune_loop_node_present)

lemma node_of_nextId [simp]: "node_of (m\<lparr>nextId := i\<rparr>) n = node_of m n"
  by (simp add: node_of_def)

lemma Write_node_last:
  "w_Datapoints w = pre @ d # post \<Longrightarrow> d_Measurement d \<notin> keymap post \<Longrightarrow>
     map_of (node_of (snd (snd (Write m now w))) (w_Node w)) (d_Measurement d) =
       Some (stamp now (length pre) d)"
  using write_loop_node_last [of d post now 0 "w_Node w" pre]
  by (simp add: Write_unfold)

lemma Write_node_absent:
  "keyed (node_of m (w_Node w)) \<Longrightarrow> k \<notin> keymap (w_Datapoints w) \<Longrightarrow>
     map_of (node_of (snd (snd (Write m now w))) (w_Node w)) k = None"
  by (simp add: Write_unfold write_loop_node_other prune_loop_node map_of_eq_None_iff)

lemma Write_subscription:
  "keyed (node_of m (w_Node w)) \<Longrightarrow>
     subscription (snd (snd (Write m now w))) key =
       (if k_Node key = w_Node w \<and> map_of (node_of m (w_Node w)) (k_Measurement key) \<noteq> None \<and>
           k_Measurement key \<notin> keymap (w_Datapoints w)
        then None else subscription m key)"
  by (auto simp: Write_unfold write_loop_frame prune_loop_subscription map_of_eq_None_iff)

lemma Write_subscription_shrinks:
  "subscription (snd (snd (Write m now w))) key = None \<or>
   subscription (snd (snd (Write m now w))) key = subscription m key"
  using prune_loop_subscription_shrinks
    [of "w_Node w" "keymap (w_Datapoints w)" "node_of m (w_Node w)" "Write_pre m (w_Node w)" key]
  by (simp add: Write_unfold write_loop_frame)

lemma Write_sends_measurement:
  "(c, reply) \<in> set (fst (snd (Write m now w))) \<Longrightarrow>
     \<exists>x. rp_Datapoints reply = [x] \<and> d_Measurement x \<in> keymap (w_Datapoints w) \<and>
         subscription m \<lparr>k_Node = w_Node w, k_Measurement = d_Measurement x\<rparr> \<noteq> None"
proof -
  assume "(c, reply) \<in> set (fst (snd (Write m now w)))"
  then obtain x where x: "rp_Datapoints reply = [x]" "d_Measurement x \<in> keymap (w_Datapoints w)"
    "subscription (prune_loop (w_Node w) (keymap (w_Datapoints w)) (node_of m (w_Node w))
                (Write_pre m (w_Node w))) \<lparr>k_Node = w_Node w, k_Measurement = d_Measurement x\<rparr> \<noteq> None"
    unfolding Write_unfold by (auto dest: write_loop_sends)
  with prune_loop_subscription_kept
    [of "\<lparr>k_Node = w_Node w, k_Measurement = d_Measurement x\<rparr>" "w_Node w" "keymap (w_Datapoints w)"
      "node_of m (w_Node w)" "Write_pre m (w_Node w)"]
  show ?thesis by auto
qed


lemma Write_keyed:
  assumes "\<forall>n' nd. datastore m n' = Some nd \<longrightarrow> keyed nd"
  shows "\<forall>n' nd. datastore (snd (snd (Write m now w))) n' = Some nd \<longrightarrow> keyed nd"
proof (intro allI impI)
  fix n' nd
  assume a: "datastore (snd (snd (Write m now w))) n' = Some nd"
  let ?p = "prune_loop (w_Node w) (keymap (w_Datapoints w)) (node_of m (w_Node w))
                (Write_pre m (w_Node w))"
  have "\<forall>n' nd. datastore ?p n' = Some nd \<longrightarrow> keyed nd"
    using prune_loop_keyed [OF Write_pre_keyed [OF assms]] by blast
  from write_loop_keyed [OF this] a show "keyed nd"
    by (simp add: Write_unfold)
qed

subsection \<open>Subscribe as a whole\<close>

lemma Subscribe_failure:
  "datastore m (rq_Node r) = None \<Longrightarrow>
     Subscribe m r =
       ((Some (errors_New ''Could not fetch requested data, node does not exists''),
         \<lparr>rp_RequestId = fst (requestId m), rp_Node = [], rp_Datapoints = []\<rparr>), [],
        m\<lparr>nextId := nextId m + 1\<rparr>)"
  by (simp add: Subscribe_def requestId_def Let_def)

lemma Subscribe_success:
  assumes "datastore m (rq_Node r) \<noteq> None"
  shows "fst (Subscribe m r) =
           (None, \<lparr>rp_RequestId = fst (requestId m), rp_Node = [], rp_Datapoints = []\<rparr>)"
    and "fst (snd (Subscribe m r)) = []"
    and "datastore (snd (snd (Subscribe m r))) = datastore m"
    and "nextId (snd (snd (Subscribe m r))) = nextId m + 1"
    and "tracking (snd (snd (Subscribe m r))) = (tracking m)(fst (requestId m) \<mapsto> length (heap m))"
    and "heap (snd (snd (Subscribe m r))) =
           heap m @ [\<lparr>t_requestId = fst (requestId m), t_reply = rq_ReplyChan r,
                      t_subs = map (\<lambda>me. \<lparr>k_Node = rq_Node r, k_Measurement = me\<rparr>)
                                 (rq_Measurements r)\<rparr>]"
    and "subscription (snd (snd (Subscribe m r))) k =
           (if k_Node k = rq_Node r \<and> k_Measurement k \<in> set (rq_Measurements r)
            then Some ((case subscription m k of None \<Rightarrow> [] | Some ts \<Rightarrow> ts) @
                       replicate (count_list (rq_Measurements r) (k_Measurement k))
                         (length (heap m)))
            else subscription m k)"
  using assms
  by (auto simp: Subscribe_def requestId_def Let_def subscribe_loop_frame subscribe_loop_heap
      subscribe_loop_subscription)

subsection \<open>The invariants hold in every store a history reaches\<close>

lemma store_inv_New: "store_inv NewInMemoryStore"
  by (simp add: store_inv_def NewInMemoryStore_def)

lemma store_inv_Write: "store_inv m \<Longrightarrow> store_inv (snd (snd (Write m now w)))"
  unfolding store_inv_def
proof (intro conjI)
  assume a: "(\<forall>n node. datastore m n = Some node \<longrightarrow> keyed node) \<and>
    (\<forall>k ts. subscription m k = Some ts \<longrightarrow> (\<forall>t\<in>set ts. t < length (heap m))) \<and>
    (\<forall>rid t. tracking m rid = Some t \<longrightarrow> t < length (heap m))"
  then show "\<forall>n node. datastore (snd (snd (Write m now w))) n = Some node \<longrightarrow> keyed node"
    using Write_keyed by blast
  show "\<forall>k ts. subscription (snd (snd (Write m now w))) k = Some ts \<longrightarrow>
      (\<forall>t\<in>set ts. t < length (heap (snd (snd (Write m now w)))))"
    using a Write_subscription_shrinks [of m now w] by (metis Write_frame option.distinct(1))
  show "\<forall>rid t. tracking (snd (snd (Write m now w))) rid = Some t \<longrightarrow>
      t < length (heap (snd (snd (Write m now w))))"
    using a by (simp add: Write_frame)
qed

lemma store_inv_Subscribe: "store_inv m \<Longrightarrow> store_inv (snd (snd (Subscribe m r)))"
proof (cases "datastore m (rq_Node r)")
  case None
  assume "store_inv m"
  then show ?thesis by (simp add: Subscribe_failure [OF None] store_inv_def)
next
  case (Some nd)
  then have p: "datastore m (rq_Node r) \<noteq> None" by simp
  assume "store_inv m"
  then show ?thesis
    unfolding store_inv_def
    by (auto simp: Subscribe_success [OF p] less_Suc_eq split: if_splits option.splits) metis
qed

lemma store_inv_Cancel: "store_inv m \<Longrightarrow> store_inv (snd (Cancel m rid))"
  by (auto simp: store_inv_def Cancel_def split: option.splits if_splits)

lemma store_inv_step: "store_inv m \<Longrightarrow> store_inv (snd (step m c))"
  by (cases c)
    (simp_all add: split_beta store_inv_Write store_inv_Subscribe store_inv_Cancel
      ReadImmediate_def SourceList_def split: option.splits)

lemma store_inv_run: "store_inv m \<Longrightarrow> store_inv (snd (run m cs))"
  by (induction cs arbitrary: m) (simp_all add: split_beta store_inv_step)

lemma store_inv_reached: "store_inv (snd (run NewInMemoryStore cs))"
  by (rule store_inv_run [OF store_inv_New])

lemma store_inv_keyed: "store_inv m \<Longrightarrow> keyed (node_of m n)"
  by (simp add: store_inv_def keyed_node_of)

text \<open>A node is in the value table exactly when a Write to it has been made.\<close>

lemma step_datastore_dom:
  "datastore (snd (step m c)) n \<noteq> None \<longleftrightarrow>
     datastore m n \<noteq> None \<or> (\<exists>now w. c = Op_Write now w \<and> w_Node w = n)"
proof (cases c)
  case (Op_Subscribe r)
  then show ?thesis
    by (cases "datastore m (rq_Node r)")
      (simp_all add: split_beta Subscribe_failure Subscribe_success)
next
  case (Op_Write now w)
  then show ?thesis
    using Write_node_present [of m now w] Write_other_node [of n w m now]
    by (cases "n = w_Node w") (auto simp: split_beta)
qed (simp_all add: split_beta ReadImmediate_def SourceList_def Cancel_def split: option.splits)

lemma run_datastore_dom:
  "datastore (snd (run m cs)) n \<noteq> None \<longleftrightarrow>
     datastore m n \<noteq> None \<or> (\<exists>now w. Op_Write now w \<in> set cs \<and> w_Node w = n)"
proof (induction cs arbitrary: m)
  case Nil
  then show ?case by simp
next
  case (Cons c cs)
  show ?case
    using Cons.IH [of "snd (step m c)"] step_datastore_dom [of m c n]
    by (auto simp: split_beta)
qed

lemma written_iff: "n \<in> written cs \<longleftrightarrow> (\<exists>now w. Op_Write now w \<in> set cs \<and> w_Node w = n)"
  by (induction cs rule: written.induct) auto

lemma run_datastore_written:
  "datastore (snd (run NewInMemoryStore cs)) n \<noteq> None \<longleftrightarrow> n \<in> written cs"
  using run_datastore_dom [of NewInMemoryStore cs n]
  by (simp add: written_iff NewInMemoryStore_def)

subsection \<open>Write, then ReadImmediate\<close>

text \<open>
  C1, as amended.  After Write(n, batch), where d is the last datapoint of the batch for
  its measurement m, a ReadImmediate(n, [m]) with no write in between sends one reply that
  holds exactly the stored datapoint: d itself when its timestamp is at least 1, and d with
  the clock reading taken for it during the write when its timestamp is below 1; that
  reading is at least any time that bounds the clock readings of the write from below.
\<close>

theorem Write_then_ReadImmediate:
  "w_Datapoints w = pre @ d # post \<Longrightarrow> d_Measurement d \<notin> keymap post \<Longrightarrow>
     ReadImmediate (snd (snd (Write m now w)))
       \<lparr>rq_Node = w_Node w, rq_Measurements = [d_Measurement d], rq_ReplyChan = c\<rparr> =
       ((None, Reply_zero),
        [(c, \<lparr>rp_RequestId = [], rp_Node = w_Node w,
               rp_Datapoints = [stamp now (length pre) d]\<rparr>)],
        snd (snd (Write m now w))) \<and>
     (1 \<le>s d_Timestamp d \<longrightarrow> stamp now (length pre) d = d) \<and>
     (d_Timestamp d <s 1 \<longrightarrow>
        stamp now (length pre) d = d\<lparr>d_Timestamp := now (length pre)\<rparr> \<and>
        ((\<forall>i. t0 \<le>s now i) \<longrightarrow> t0 \<le>s d_Timestamp (stamp now (length pre) d)))"
proof (intro conjI)
  assume a: "w_Datapoints w = pre @ d # post" "d_Measurement d \<notin> keymap post"
  let ?m = "snd (snd (Write m now w))"
  from Write_node_present [of m now w] obtain nd where nd: "datastore ?m (w_Node w) = Some nd"
    by auto
  with Write_node_last [OF a, of m now]
  have "map_of nd (d_Measurement d) = Some (stamp now (length pre) d)"
    by (simp add: node_of_def)
  with nd show "ReadImmediate ?m
       \<lparr>rq_Node = w_Node w, rq_Measurements = [d_Measurement d], rq_ReplyChan = c\<rparr> =
       ((None, Reply_zero),
        [(c, \<lparr>rp_RequestId = [], rp_Node = w_Node w,
               rp_Datapoints = [stamp now (length pre) d]\<rparr>)], ?m)"
    by (simp add: ReadImmediate_def)
qed (auto simp: stamp_def word_sless_alt word_sle_eq)

theorem Write_then_ReadImmediate_witness:
  "w_Datapoints \<lparr>w_Node = ''A'', w_Datapoints = [ex_temp, ex_hum, ex_temp2]\<rparr> =
     [ex_temp, ex_hum] @ ex_temp2 # [] \<and>
   d_Measurement ex_temp2 \<notin> keymap [] \<and> d_Timestamp ex_temp2 <s 1 \<and>
   ReadImmediate
     (snd (snd (Write NewInMemoryStore ex_now
                  \<lparr>w_Node = ''A'', w_Datapoints = [ex_temp, ex_hum, ex_temp2]\<rparr>)))
     \<lparr>rq_Node = ''A'', rq_Measurements = [''temp''], rq_ReplyChan = 9\<rparr> =
     ((None, Reply_zero),
      [(9, \<lparr>rp_RequestId = [], rp_Node = ''A'',
             rp_Datapoints = [ex_temp2\<lparr>d_Timestamp := 100\<rparr>]\<rparr>)],
      snd (snd (Write NewInMemoryStore ex_now
                  \<lparr>w_Node = ''A'', w_Datapoints = [ex_temp, ex_hum, ex_temp2]\<rparr>))) \<and>
   (\<forall>i. 100 \<le>s ex_now i) \<and>
   100 \<le>s d_Timestamp (stamp ex_now 2 ex_temp2) \<and>
   w_Datapoints \<lparr>w_Node = ''A'', w_Datapoints = [ex_temp, ex_hum, ex_temp2]\<rparr> =
     [ex_temp] @ ex_hum # [ex_temp2] \<and>
   d_Measurement ex_hum \<notin> keymap [ex_temp2] \<and> 1 \<le>s d_Timestamp ex_hum \<and>
   ReadImmediate
     (snd (snd (Write NewInMemoryStore ex_now
                  \<lparr>w_Node = ''A'', w_Datapoints = [ex_temp, ex_hum, ex_temp2]\<rparr>)))
     \<lparr>rq_Node = ''A'', rq_Measurements = [''hum''], rq_ReplyChan = 9\<rparr> =
     ((None, Reply_zero),
      [(9, \<lparr>rp_RequestId = [], rp_Node = ''A'', rp_Datapoints = [ex_hum]\<rparr>)],
      snd (snd (Write NewInMemoryStore ex_now
                  \<lparr>w_Node = ''A'', w_Datapoints = [ex_temp, ex_hum, ex_temp2]\<rparr>)))"
  using Write_then_ReadImmediate
    [of "\<lparr>w_Node = ''A'', w_Datapoints = [ex_temp, ex_hum, ex_temp2]\<rparr>" "[ex_temp, ex_hum]"
       ex_temp2 "[]" NewInMemoryStore ex_now 9 100]
    Write_then_ReadImmediate
    [of "\<lparr>w_Node = ''A'', w_Datapoints = [ex_temp, ex_hum, ex_temp2]\<rparr>" "[ex_temp]"
       ex_hum "[ex_temp2]" NewInMemoryStore ex_now 9 100]
  by (simp add: ex_defs stamp_def word_sless_alt word_sle_eq)

text \<open>
  C1 as stated fails on a batch with two datapoints for one measurement: the later one is
  stored, so the read does not return the earlier one although the batch contains it.
\<close>

theorem Write_then_ReadImmediate_counterexample:
  "ex_temp \<in> set (w_Datapoints \<lparr>w_Node = ''A'', w_Datapoints = [ex_temp, ex_temp3]\<rparr>) \<and>
   1 \<le>s d_Timestamp ex_temp \<and>
   fst (snd (ReadImmediate
     (snd (snd (Write NewInMemoryStore ex_now
                  \<lparr>w_Node = ''A'', w_Datapoints = [ex_temp, ex_temp3]\<rparr>)))
     \<lparr>rq_Node = ''A'', rq_Measurements = [d_Measurement ex_temp], rq_ReplyChan = 9\<rparr>)) =
     [(9, \<lparr>rp_RequestId = [], rp_Node = ''A'', rp_Datapoints = [ex_temp3]\<rparr>)] \<and>
   ex_temp3 \<noteq> ex_temp"
  by (simp add: ex_defs eval_defs word_sle_eq)

subsection \<open>Pruning\<close>

lemma ex_store_hw_built:
  "Subscribe ex_store1 ex_request_hw =
     ((None, \<lparr>rp_RequestId = ''REQ0000002'', rp_Node = [], rp_Datapoints = []\<rparr>), [],
      ex_store_hw)"
  by (simp add: ex_defs eval_defs)

lemma ex_store_hw_run:
  "run NewInMemoryStore [Op_Write ex_now ex_write, Op_Subscribe ex_request_hw] =
     ([''REQ0000001'', ''REQ0000002''], ex_store_hw)"
  by (simp add: ex_store1_built ex_store_hw_built)

lemma ex_store1_run:
  "run NewInMemoryStore [Op_Write ex_now ex_write] = ([''REQ0000001''], ex_store1)"
  by (simp add: ex_store1_built)



text \<open>
  C2.  In a store reached by a history, for a node n that has a map in the value table:
  Write(n, batch) removes every measurement stored for n whose name does not occur in the
  batch, from the value table (a read of it returns no datapoint) and from the subscription
  index (the bucket of its key is deleted, and no later Write to n sends a datapoint of
  that measurement on account of the old bucket).  The bucket of every other key, among
  them the keys of measurements that were never stored for n, is left as it was.
\<close>

theorem Write_prunes:
  assumes reach: "snd (run NewInMemoryStore cs) = m"
    and node: "datastore m (w_Node w) = Some node"
    and m': "snd (snd (Write m now w)) = m'"
  shows
    "(\<forall>me. map_of node me \<noteq> None \<and> me \<notin> keymap (w_Datapoints w) \<longrightarrow>
        map_of (node_of m' (w_Node w)) me = None \<and>
        subscription m' \<lparr>k_Node = w_Node w, k_Measurement = me\<rparr> = None \<and>
        (\<forall>c. fst (snd (ReadImmediate m'
                 \<lparr>rq_Node = w_Node w, rq_Measurements = [me], rq_ReplyChan = c\<rparr>)) =
              [(c, \<lparr>rp_RequestId = [], rp_Node = w_Node w, rp_Datapoints = []\<rparr>)]) \<and>
        (\<forall>now2 w2. w_Node w2 = w_Node w \<longrightarrow>
           (\<forall>(c, reply) \<in> set (fst (snd (Write m' now2 w2))).
              \<forall>x \<in> set (rp_Datapoints reply). d_Measurement x \<noteq> me))) \<and>
     (\<forall>key. \<not> (k_Node key = w_Node w \<and> map_of node (k_Measurement key) \<noteq> None \<and>
               k_Measurement key \<notin> keymap (w_Datapoints w)) \<longrightarrow>
        subscription m' key = subscription m key)"
proof -
  have inv: "store_inv m"
    using store_inv_reached [of cs] reach by simp
  have nd: "node_of m (w_Node w) = node"
    using node by (simp add: node_of_def)
  have keyed: "keyed (node_of m (w_Node w))"
    by (rule store_inv_keyed [OF inv])
  note sub = Write_subscription [OF keyed, of now, unfolded m' nd]
  have absent: "\<And>me. me \<notin> keymap (w_Datapoints w) \<Longrightarrow> map_of (node_of m' (w_Node w)) me = None"
    using Write_node_absent [OF keyed, of _ now] m' by simp
  from Write_node_present [of m now w] m' obtain nd' where
    nd': "datastore m' (w_Node w) = Some nd'" by auto
  have read: "\<And>me c. me \<notin> keymap (w_Datapoints w) \<Longrightarrow>
      fst (snd (ReadImmediate m'
                 \<lparr>rq_Node = w_Node w, rq_Measurements = [me], rq_ReplyChan = c\<rparr>)) =
              [(c, \<lparr>rp_RequestId = [], rp_Node = w_Node w, rp_Datapoints = []\<rparr>)]"
    using absent nd' by (simp add: ReadImmediate_def node_of_def)
  have later: "\<And>me now2 w2 c reply x. subscription m' \<lparr>k_Node = w_Node w, k_Measurement = me\<rparr> = None \<Longrightarrow>
      w_Node w2 = w_Node w \<Longrightarrow> (c, reply) \<in> set (fst (snd (Write m' now2 w2))) \<Longrightarrow>
      x \<in> set (rp_Datapoints reply) \<Longrightarrow> d_Measurement x \<noteq> me"
    by (auto dest!: Write_sends_measurement)
  have stale: "\<And>me. map_of node me \<noteq> None \<Longrightarrow> me \<notin> keymap (w_Datapoints w) \<Longrightarrow>
      subscription m' \<lparr>k_Node = w_Node w, k_Measurement = me\<rparr> = None"
    by (simp add: sub)
  have kept: "\<And>key. \<not> (k_Node key = w_Node w \<and> map_of node (k_Measurement key) \<noteq> None \<and>
               k_Measurement key \<notin> keymap (w_Datapoints w)) \<Longrightarrow>
        subscription m' key = subscription m key"
    by (auto simp: sub)
  show ?thesis
  proof (intro conjI allI impI)
    fix me
    assume me: "map_of node me \<noteq> None \<and> me \<notin> keymap (w_Datapoints w)"
    then show "map_of (node_of m' (w_Node w)) me = None"
      by (simp add: absent)
    from me show "subscription m' \<lparr>k_Node = w_Node w, k_Measurement = me\<rparr> = None"
      by (simp add: stale)
    fix c
    from me show "fst (snd (ReadImmediate m'
                 \<lparr>rq_Node = w_Node w, rq_Measurements = [me], rq_ReplyChan = c\<rparr>)) =
              [(c, \<lparr>rp_RequestId = [], rp_Node = w_Node w, rp_Datapoints = []\<rparr>)]"
      by (simp add: read)
  next
    fix me now2 and w2 :: Write
    assume me: "map_of node me \<noteq> None \<and> me \<notin> keymap (w_Datapoints w)"
      and w2: "w_Node w2 = w_Node w"
    from me have "subscription m' \<lparr>k_Node = w_Node w, k_Measurement = me\<rparr> = None"
      by (simp add: stale)
    from later [OF this w2]
    show "\<forall>(c, reply) \<in> set (fst (snd (Write m' now2 w2))).
              \<forall>x \<in> set (rp_Datapoints reply). d_Measurement x \<noteq> me"
      by blast
  next
    fix key :: Key
    assume "\<not> (k_Node key = w_Node w \<and> map_of node (k_Measurement key) \<noteq> None \<and>
               k_Measurement key \<notin> keymap (w_Datapoints w))"
    then show "subscription m' key = subscription m key"
      by (rule kept)
  qed
qed


theorem Write_prunes_witness:
  "snd (run NewInMemoryStore [Op_Write ex_now ex_write, Op_Subscribe ex_request_hw]) =
     ex_store_hw \<and>
   datastore ex_store_hw (w_Node ex_write_temp) = Some [(''temp'', ex_temp), (''hum'', ex_hum)] \<and>
   map_of [(''temp'', ex_temp), (''hum'', ex_hum)] ''hum'' \<noteq> None \<and>
   ''hum'' \<notin> keymap (w_Datapoints ex_write_temp) \<and>
   subscription ex_store_hw \<lparr>k_Node = ''A'', k_Measurement = ''hum''\<rparr> = Some [0] \<and>
   map_of (node_of (snd (snd (Write ex_store_hw ex_now ex_write_temp))) ''A'') ''hum'' = None \<and>
   subscription (snd (snd (Write ex_store_hw ex_now ex_write_temp)))
     \<lparr>k_Node = ''A'', k_Measurement = ''hum''\<rparr> = None \<and>
   subscription (snd (snd (Write ex_store_hw ex_now ex_write_temp)))
     \<lparr>k_Node = ''A'', k_Measurement = ''wind''\<rparr> = Some [0]"
  using Write_prunes [of "[Op_Write ex_now ex_write, Op_Subscribe ex_request_hw]" ex_store_hw
      ex_write_temp "[(''temp'', ex_temp), (''hum'', ex_hum)]" ex_now
      "snd (snd (Write ex_store_hw ex_now ex_write_temp))"]
  by (simp add: ex_store_hw_run) (simp add: ex_defs eval_defs)




subsection \<open>Subscribe\<close>

lemma ex_Subscribe_new:
  "Subscribe NewInMemoryStore ex_request =
     ((Some (errors_New ''Could not fetch requested data, node does not exists''),
       \<lparr>rp_RequestId = ''REQ0000001'', rp_Node = [], rp_Datapoints = []\<rparr>), [],
      NewInMemoryStore\<lparr>nextId := 1\<rparr>)"
  by (simp add: ex_defs eval_defs)

text \<open>
  C4.  In a store reached by a history, Subscribe returns the request id it minted and
  sends nothing.  If no Write to the node has been made, it returns the node-not-found
  error and the subscription index, the tracking table and the Tracking objects are as
  before.  If a Write to the node has been made, it succeeds, whether or not the requested
  measurements are stored: it allocates one Tracking holding the minted id, the caller's
  channel and the keys of all requested measurements, appends the pointer to that one
  object to the bucket of every requested key (once for each time the measurement is
  listed), and stores it in the tracking table under the minted id.
\<close>

theorem Subscribe_registers:
  assumes reach: "snd (run NewInMemoryStore cs) = m"
    and res: "Subscribe m r = ((e, reply), out, m')"
  shows
    "out = [] \<and> rp_RequestId reply = fst (requestId m) \<and> datastore m' = datastore m \<and>
     (rq_Node r \<notin> written cs \<longrightarrow>
        e = Some (errors_New ''Could not fetch requested data, node does not exists'') \<and>
        subscription m' = subscription m \<and> tracking m' = tracking m \<and> heap m' = heap m) \<and>
     (rq_Node r \<in> written cs \<longrightarrow>
        e = None \<and>
        heap m' =
          heap m @
          [\<lparr>t_requestId = rp_RequestId reply, t_reply = rq_ReplyChan r,
            t_subs = map (\<lambda>me. \<lparr>k_Node = rq_Node r, k_Measurement = me\<rparr>)
                       (rq_Measurements r)\<rparr>] \<and>
        (\<forall>k. subscription m' k =
           (if k_Node k = rq_Node r \<and> k_Measurement k \<in> set (rq_Measurements r)
            then Some ((case subscription m k of None \<Rightarrow> [] | Some ts \<Rightarrow> ts) @
                       replicate (count_list (rq_Measurements r) (k_Measurement k))
                         (length (heap m)))
            else subscription m k)) \<and>
        tracking m' = (tracking m)(rp_RequestId reply \<mapsto> length (heap m)))"
proof (cases "datastore m (rq_Node r)")
  case None
  with run_datastore_written [of cs "rq_Node r"] reach
  have never: "rq_Node r \<notin> written cs"
    by simp
  from Subscribe_failure [OF None] res never show ?thesis
    by auto
next
  case (Some nd)
  then have present: "datastore m (rq_Node r) \<noteq> None" by simp
  with run_datastore_written [of cs "rq_Node r"] reach
  have written: "rq_Node r \<in> written cs"
    by simp
  note S = Subscribe_success [OF present]
  from res have r: "e = fst (fst (Subscribe m r))" "reply = snd (fst (Subscribe m r))"
    "out = fst (snd (Subscribe m r))" "m' = snd (snd (Subscribe m r))"
    by simp_all
  show ?thesis
    unfolding r using written by (simp add: S)
qed

theorem Subscribe_registers_witness:
  "snd (run NewInMemoryStore []) = NewInMemoryStore \<and>
   rq_Node ex_request \<notin> written [] \<and>
   Subscribe NewInMemoryStore ex_request =
     ((Some (errors_New ''Could not fetch requested data, node does not exists''),
       \<lparr>rp_RequestId = ''REQ0000001'', rp_Node = [], rp_Datapoints = []\<rparr>), [],
      NewInMemoryStore\<lparr>nextId := 1\<rparr>) \<and>
   subscription (NewInMemoryStore\<lparr>nextId := 1\<rparr>) = subscription NewInMemoryStore \<and>
   tracking (NewInMemoryStore\<lparr>nextId := 1\<rparr>) = tracking NewInMemoryStore \<and>
   snd (run NewInMemoryStore [Op_Write ex_now ex_write]) = ex_store1 \<and>
   rq_Node ex_request_hw \<in> written [Op_Write ex_now ex_write] \<and>
   map_of (node_of ex_store1 ''A'') ''wind'' = None \<and>
   Subscribe ex_store1 ex_request_hw =
     ((None, \<lparr>rp_RequestId = ''REQ0000002'', rp_Node = [], rp_Datapoints = []\<rparr>), [],
      ex_store_hw) \<and>
   heap ex_store_hw =
     heap ex_store1 @
     [\<lparr>t_requestId = ''REQ0000002'', t_reply = rq_ReplyChan ex_request_hw,
       t_subs = map (\<lambda>me. \<lparr>k_Node = rq_Node ex_request_hw, k_Measurement = me\<rparr>)
                  (rq_Measurements ex_request_hw)\<rparr>] \<and>
   tracking ex_store_hw = (tracking ex_store1)(''REQ0000002'' \<mapsto> length (heap ex_store1))"
proof -
  have h1: "snd (run NewInMemoryStore []) = NewInMemoryStore"
    by simp
  have h2: "rq_Node ex_request \<notin> written []"
    by simp
  note T1 = Subscribe_registers [OF h1 ex_Subscribe_new]
  from T1 h2 have c1: "subscription (NewInMemoryStore\<lparr>nextId := 1\<rparr>) = subscription NewInMemoryStore"
    and c2: "tracking (NewInMemoryStore\<lparr>nextId := 1\<rparr>) = tracking NewInMemoryStore"
    by blast+
  have h3: "snd (run NewInMemoryStore [Op_Write ex_now ex_write]) = ex_store1"
    by (simp only: ex_store1_run snd_conv)
  have h4: "rq_Node ex_request_hw \<in> written [Op_Write ex_now ex_write]"
    by (simp add: ex_defs)
  have h5: "map_of (node_of ex_store1 ''A'') ''wind'' = None"
    by (simp add: ex_defs node_of_def)
  note T2 = Subscribe_registers [OF h3 ex_store_hw_built]
  from T2 h4 have c3: "heap ex_store_hw =
     heap ex_store1 @
     [\<lparr>t_requestId = ''REQ0000002'', t_reply = rq_ReplyChan ex_request_hw,
       t_subs = map (\<lambda>me. \<lparr>k_Node = rq_Node ex_request_hw, k_Measurement = me\<rparr>)
                  (rq_Measurements ex_request_hw)\<rparr>]"
    and c4: "tracking ex_store_hw = (tracking ex_store1)(''REQ0000002'' \<mapsto> length (heap ex_store1))"
    by simp_all
  show ?thesis
    by (intro conjI h1 h2 ex_Subscribe_new c1 c2 h3 h4 h5 ex_store_hw_built c3 c4)
qed




subsection \<open>Decimal renderings\<close>

lemma digit_code: "d < 10 \<Longrightarrow> (of_char (digit d) :: nat) = 48 + d"
proof -
  assume "d < 10"
  then have "d \<in> {0, 1, 2, 3, 4, 5, 6, 7, 8, 9}" by auto
  then show ?thesis
    by (auto simp: digit_def)
qed

lemma digit_val_digit [simp]: "d < 10 \<Longrightarrow> digit_val (digit d) = d"
  by (simp add: digit_code digit_val_def)

lemma digit_less: "a < b \<Longrightarrow> b < 10 \<Longrightarrow> digit a < digit b"
  by (simp add: digit_code less_char_def)

lemma digit_not_minus: "d < 10 \<Longrightarrow> digit d \<noteq> CHR ''-''"
proof
  assume "d < 10" and "digit d = CHR ''-''"
  then have "(of_char (CHR ''-'') :: nat) = 48 + d"
    using digit_code [of d] by simp
  then show False by simp
qed

lemma digit_0 [simp]: "digit 0 = CHR ''0''"
  by (simp add: digit_def)

lemma undecimal_snoc [simp]: "undecimal (s @ [c]) = 10 * undecimal s + digit_val c"
  by (simp add: undecimal_def)

lemma undecimal_Nil [simp]: "undecimal [] = 0"
  by (simp add: undecimal_def)

lemma undecimal_decimal: "undecimal (decimal n) = n"
proof (induction n rule: decimal.induct)
  case (1 n)
  show ?case
  proof (cases "n < 10")
    case True
    then show ?thesis
      using undecimal_snoc [of "[]" "digit n"] by (simp add: decimal.simps [of n])
  next
    case False
    with 1 show ?thesis
      by (simp add: decimal.simps [of n])
  qed
qed

lemma undecimal_zeros: "undecimal (replicate k (CHR ''0'') @ s) = undecimal s"
proof -
  have "foldl (\<lambda>a c. 10 * a + digit_val c) 0 (replicate k (CHR ''0'')) = 0"
    by (induction k) (simp_all add: digit_val_def)
  then show ?thesis
    by (simp add: undecimal_def)
qed

lemma undecimal_zero_pad [simp]: "undecimal (zero_pad w (decimal n)) = n"
  by (simp add: zero_pad_def undecimal_zeros undecimal_decimal)

lemma decimal_no_minus: "CHR ''-'' \<notin> set (decimal n)"
proof (induction n rule: decimal.induct)
  case (1 n)
  show ?case
  proof (cases "n < 10")
    case True
    then show ?thesis
      using digit_not_minus [of n] by (auto simp: decimal.simps [of n])
  next
    case False
    with 1 show ?thesis
      using digit_not_minus [of "n mod 10"] by (auto simp: decimal.simps [of n])
  qed
qed

lemma zero_pad_no_minus: "CHR ''-'' \<notin> set (zero_pad w (decimal n))"
  using decimal_no_minus [of n] by (auto simp: zero_pad_def)

lemma fmt_07d_inj: "fmt_07d i = fmt_07d j \<Longrightarrow> i = j"
proof -
  assume e: "fmt_07d i = fmt_07d j"
  consider "i < 0" "j < 0" | "0 \<le> i" "0 \<le> j" | "i < 0" "0 \<le> j" | "0 \<le> i" "j < 0"
    by linarith
  then show ?thesis
  proof cases
    case 1
    with e have "zero_pad 6 (decimal (nat (- i))) = zero_pad 6 (decimal (nat (- j)))"
      by (simp add: fmt_07d_def)
    then have "undecimal (zero_pad 6 (decimal (nat (- i)))) =
        undecimal (zero_pad 6 (decimal (nat (- j))))"
      by simp
    with 1 show ?thesis by simp
  next
    case 2
    with e have "undecimal (zero_pad 7 (decimal (nat i))) = undecimal (zero_pad 7 (decimal (nat j)))"
      by (simp add: fmt_07d_def)
    with 2 show ?thesis by simp
  next
    case 3
    from e have "set (fmt_07d i) = set (fmt_07d j)" by simp
    with 3 have "CHR ''-'' \<in> set (zero_pad 7 (decimal (nat j)))"
      by (auto simp: fmt_07d_def)
    with zero_pad_no_minus show ?thesis by blast
  next
    case 4
    from e have "set (fmt_07d i) = set (fmt_07d j)" by simp
    with 4 have "CHR ''-'' \<in> set (zero_pad 7 (decimal (nat i)))"
      by (auto simp: fmt_07d_def)
    with zero_pad_no_minus show ?thesis by blast
  qed
qed

subsection \<open>Fixed width\<close>

lemma length_fixed_decimal [simp]: "length (fixed_decimal w n) = w"
  by (induction w arbitrary: n) simp_all

lemma fixed_decimal_0: "fixed_decimal w 0 = replicate w (CHR ''0'')"
  by (induction w) (simp_all add: replicate_append_same)

lemma length_decimal: "0 < w \<Longrightarrow> n < 10 ^ w \<Longrightarrow> length (decimal n) \<le> w"
proof (induction n arbitrary: w rule: decimal.induct)
  case (1 n)
  show ?case
  proof (cases "n < 10")
    case True
    with "1.prems" show ?thesis by (simp add: decimal.simps [of n])
  next
    case False
    from "1.prems" obtain w' where w: "w = Suc w'" by (cases w) auto
    from False "1.prems" w have "0 < w'" by (cases w') auto
    moreover from "1.prems" w have "n div 10 < 10 ^ w'"
      by (simp add: less_mult_imp_div_less mult.commute)
    ultimately have "length (decimal (n div 10)) \<le> w'"
      using "1.IH" False by simp
    with False w show ?thesis by (simp add: decimal.simps [of n])
  qed
qed

lemma zero_pad_fixed: "0 < w \<Longrightarrow> n < 10 ^ w \<Longrightarrow> zero_pad w (decimal n) = fixed_decimal w n"
proof (induction n arbitrary: w rule: decimal.induct)
  case (1 n)
  from "1.prems" obtain w' where w: "w = Suc w'" by (cases w) auto
  show ?case
  proof (cases "n < 10")
    case True
    then show ?thesis
      by (simp add: decimal.simps [of n] zero_pad_def w fixed_decimal_0)
  next
    case False
    from False "1.prems" w have w': "0 < w'" by (cases w') auto
    from "1.prems" w have d: "n div 10 < 10 ^ w'"
      by (simp add: less_mult_imp_div_less mult.commute)
    from "1.IH" [OF False w' d] have "zero_pad w' (decimal (n div 10)) = fixed_decimal w' (n div 10)" .
    moreover have "length (decimal (n div 10)) \<le> w'"
      by (rule length_decimal [OF w' d])
    ultimately show ?thesis
      using False by (simp add: decimal.simps [of n] zero_pad_def w Suc_diff_le)
  qed
qed

lemma snoc_less: "(xs :: string) < ys \<Longrightarrow> length xs = length ys \<Longrightarrow> xs @ us < ys @ vs"
  by (simp add: list_less_def lexord_sufI)

lemma same_prefix_less: "(us :: string) < vs \<Longrightarrow> xs @ us < xs @ vs"
  by (simp add: list_less_def lexord_append_leftI)

lemma fixed_decimal_less: "i < j \<Longrightarrow> j < 10 ^ w \<Longrightarrow> fixed_decimal w i < fixed_decimal w j"
proof (induction w arbitrary: i j)
  case 0
  then show ?case by simp
next
  case (Suc w)
  from Suc.prems have le: "i div 10 \<le> j div 10" and b: "j div 10 < 10 ^ w"
    by (simp_all add: div_le_mono less_mult_imp_div_less mult.commute)
  show ?case
  proof (cases "i div 10 < j div 10")
    case True
    from Suc.IH [OF True b] show ?thesis
      by (simp add: snoc_less)
  next
    case False
    with le have eq: "i div 10 = j div 10" by simp
    with Suc.prems(1) have "i mod 10 < j mod 10"
      by (metis div_mult_mod_eq nat_add_left_cancel_less)
    then have "[digit (i mod 10)] < [digit (j mod 10)]"
      by (simp add: digit_less)
    then show ?thesis
      by (simp add: eq same_prefix_less)
  qed
qed

lemma zero_pad_less:
  "i < j \<Longrightarrow> j < 10 ^ 7 \<Longrightarrow> zero_pad 7 (decimal i) < zero_pad 7 (decimal j)"
  using zero_pad_fixed [of 7 i] zero_pad_fixed [of 7 j] fixed_decimal_less [of i j 7]
  by simp

lemma zero_pad_length: "n < 10 ^ 7 \<Longrightarrow> length (zero_pad 7 (decimal n)) = 7"
  using zero_pad_fixed [of 7 n] by simp

subsection \<open>Words\<close>

lemma sint_of_nat: "k < 2 ^ 63 \<Longrightarrow> sint (of_nat k :: int64) = int k"
proof -
  assume k: "k < 2 ^ 63"
  have "(of_nat k :: int64) = word_of_int (int k)" by simp
  then have "sint (of_nat k :: int64) = signed_take_bit 63 (int k)"
    by (simp only: sint_sbintrunc') simp
  also have "\<dots> = int k"
    using k by (intro signed_take_bit_int_eq_self) (simp_all add: zless_nat_eq_int_zless [symmetric] nat_power_eq)
  finally show ?thesis .
qed

lemma sint_inj: "sint (a :: int64) = sint b \<Longrightarrow> a = b"
  by (metis scast_eq scast_id)

lemma of_nat_inj64:
  "j < 2 ^ 64 \<Longrightarrow> k < 2 ^ 64 \<Longrightarrow> (of_nat j :: int64) = of_nat k \<Longrightarrow> j = k"
proof -
  assume jk: "j < 2 ^ 64" "k < 2 ^ 64" and e: "(of_nat j :: int64) = of_nat k"
  from e have "unat (of_nat j :: int64) = unat (of_nat k :: int64)" by simp
  with jk show ?thesis by (simp add: unat_of_nat)
qed

subsection \<open>The request ids of a history\<close>

lemma requestId_fst: "fst (requestId m) = id_at (nextId m + 1)"
  by (simp add: requestId_def Let_def id_at_def)

lemma Subscribe_mint:
  "rp_RequestId (snd (fst (Subscribe m r))) = fst (requestId m) \<and>
   nextId (snd (snd (Subscribe m r))) = nextId m + 1"
  by (cases "datastore m (rq_Node r)") (simp_all add: Subscribe_failure Subscribe_success)

lemma step_mint:
  "fst (step m c) = (if mints [c] = 0 then [] else [fst (requestId m)]) \<and>
   nextId (snd (step m c)) = nextId m + of_nat (mints [c])"
  by (cases c)
    (simp_all add: split_beta Subscribe_mint Write_frame ReadImmediate_def SourceList_def
      Cancel_def split: option.splits)

lemma mints_Cons: "mints (c # cs) = mints [c] + mints cs"
  by (cases c) simp_all

lemma run_mint:
  "fst (run m cs) = map (\<lambda>k. id_at (nextId m + of_nat (Suc k))) [0..<mints cs] \<and>
   nextId (snd (run m cs)) = nextId m + of_nat (mints cs)"
proof (induction cs arbitrary: m)
  case Nil
  then show ?case by simp
next
  case (Cons c cs)
  note s = step_mint [of m c]
  note ih = Cons.IH [of "snd (step m c)"]
  show ?case
  proof (cases "mints [c] = 0")
    case True
    with s ih show ?thesis
      by (simp add: split_beta mints_Cons [of c cs])
  next
    case False
    then have one: "mints [c] = 1" by (cases c) simp_all
    have "map (\<lambda>k. id_at (nextId m + of_nat (Suc k))) [0..<Suc (mints cs)] =
        id_at (nextId m + 1) # map (\<lambda>k. id_at (nextId m + 1 + of_nat (Suc k))) [0..<mints cs]"
      by (simp only: map_upt_Suc) (simp add: add.assoc)
    with s ih one show ?thesis
      by (simp add: split_beta mints_Cons [of c cs] requestId_fst add.assoc del: upt_Suc)
  qed
qed

lemma run_new_ids:
  "fst (run NewInMemoryStore cs) = map (\<lambda>k. id_at (of_nat (Suc k))) [0..<mints cs]"
  using run_mint [of NewInMemoryStore cs] by (simp add: NewInMemoryStore_def)

lemma id_at_inj:
  assumes "j < 2 ^ 64" "k < 2 ^ 64" "id_at (of_nat j) = id_at (of_nat k)"
  shows "j = k"
proof -
  from assms(3) have "fmt_07d (sint (of_nat j :: int64)) = fmt_07d (sint (of_nat k :: int64))"
    by (simp add: id_at_def)
  then have "sint (of_nat j :: int64) = sint (of_nat k :: int64)"
    by (rule fmt_07d_inj)
  then have "(of_nat j :: int64) = of_nat k"
    by (rule sint_inj)
  with assms(1,2) show ?thesis
    by (rule of_nat_inj64)
qed

lemma id_at_small: "k < 2 ^ 63 \<Longrightarrow> id_at (of_nat k) = ''REQ'' @ zero_pad 7 (decimal k)"
  by (simp add: sint_of_nat fmt_07d_def id_at_def)

lemma mints_replicate_Write [simp]: "mints (replicate n (Op_Write now w)) = n"
  by (induction n) simp_all

lemma run_Writes_nth:
  "i < n \<Longrightarrow>
     fst (run NewInMemoryStore (replicate n (Op_Write now w))) ! i = id_at (of_nat (Suc i))"
  by (simp only: run_new_ids mints_replicate_Write) simp

text \<open>
  C8, as amended.  The request ids a history hands out from a new store (one for each
  Subscribe, failed or not, and each Write) are, in order, the string REQ followed by the
  \<open>%07d\<close> rendering of an \<open>int64\<close> counter that starts at 1 and goes up by one, wrapping
  around, with every id.  For the first 2^63 - 1 ids the counter is positive and the
  rendering is its decimal value padded with zeros to at least 7 digits; from id number
  2^63 on the counter has wrapped, and while it is negative the rendering is a minus sign
  and its absolute value padded to at least 6 digits.  As long as fewer than 10^7 ids have
  been handed out, every id has exactly 7 digits (10 characters) and the ids are strictly
  increasing in the order of the strings; as long as fewer than 2^64 have been handed out,
  they are pairwise distinct.
\<close>

theorem request_ids:
  assumes "fst (run NewInMemoryStore cs) = ids"
  shows
    "length ids = mints cs \<and>
     (\<forall>i < length ids. ids ! i = ''REQ'' @ fmt_07d (sint (of_nat (i + 1) :: int64))) \<and>
     (\<forall>i < length ids. i + 1 < 2 ^ 63 \<longrightarrow> ids ! i = ''REQ'' @ zero_pad 7 (decimal (i + 1))) \<and>
     (\<forall>i < length ids. sint (of_nat (i + 1) :: int64) < 0 \<longrightarrow>
        ids ! i =
          ''REQ-'' @ zero_pad 6 (decimal (nat (- sint (of_nat (i + 1) :: int64))))) \<and>
     (length ids < 10 ^ 7 \<longrightarrow> (\<forall>x \<in> set ids. length x = 10) \<and> sorted_wrt (<) ids) \<and>
     (length ids < 2 ^ 64 \<longrightarrow> distinct ids)"
proof -
  let ?f = "\<lambda>k. id_at (of_nat (Suc k))"
  have ids: "ids = map ?f [0..<mints cs]"
    using assms run_new_ids [of cs] by simp
  have len: "length ids = mints cs"
    by (simp add: ids)
  have every: "\<forall>i < length ids. ids ! i = ''REQ'' @ fmt_07d (sint (of_nat (i + 1) :: int64))"
  proof (intro allI impI)
    fix i
    assume "i < length ids"
    then have "ids ! i = ?f i"
      unfolding ids by simp
    then show "ids ! i = ''REQ'' @ fmt_07d (sint (of_nat (i + 1) :: int64))"
      by (simp add: id_at_def)
  qed
  have neg: "\<forall>i < length ids. sint (of_nat (i + 1) :: int64) < 0 \<longrightarrow>
        ids ! i =
          ''REQ-'' @ zero_pad 6 (decimal (nat (- sint (of_nat (i + 1) :: int64))))"
    using every by (simp add: fmt_07d_def)
  have nth: "\<forall>i < length ids. i + 1 < 2 ^ 63 \<longrightarrow> ids ! i = ''REQ'' @ zero_pad 7 (decimal (i + 1))"
  proof (intro allI impI)
    fix i
    assume i: "i < length ids" "i + 1 < 2 ^ 63"
    from i(1) have "ids ! i = ?f i"
      unfolding ids by simp
    also from i(2) have "\<dots> = ''REQ'' @ zero_pad 7 (decimal (Suc i))"
      by (intro id_at_small) simp
    finally show "ids ! i = ''REQ'' @ zero_pad 7 (decimal (i + 1))"
      by simp
  qed
  have small: "length ids < 10 ^ 7 \<longrightarrow> (\<forall>x \<in> set ids. length x = 10) \<and> sorted_wrt (<) ids"
  proof
    assume b: "length ids < 10 ^ 7"
    have bound: "\<And>k. k < mints cs \<Longrightarrow> Suc k < 10 ^ 7"
      using b len by simp
    have f: "\<And>k. k < mints cs \<Longrightarrow> ?f k = ''REQ'' @ zero_pad 7 (decimal (Suc k))"
    proof -
      fix k
      assume "k < mints cs"
      then have "Suc k < 10 ^ 7" by (rule bound)
      then have "Suc k < 2 ^ 63" by simp
      then show "?f k = ''REQ'' @ zero_pad 7 (decimal (Suc k))" by (rule id_at_small)
    qed
    have l: "\<forall>x \<in> set ids. length x = 10"
    proof
      fix x
      assume "x \<in> set ids"
      then obtain k where k: "k < mints cs" "x = ?f k"
        unfolding ids by auto
      from k(2) f [OF k(1)] zero_pad_length [OF bound [OF k(1)]] show "length x = 10"
        by simp
    qed
    have "sorted_wrt (\<lambda>j k. ?f j < ?f k) [0..<mints cs]"
    proof (rule sorted_wrt_mono_rel [of _ "(<)"])
      fix j k
      assume jk: "j \<in> set [0..<mints cs]" "k \<in> set [0..<mints cs]" "j < k"
      then have j: "j < mints cs" and k: "k < mints cs" by simp_all
      from jk(3) have "Suc j < Suc k" by simp
      then have "zero_pad 7 (decimal (Suc j)) < zero_pad 7 (decimal (Suc k))"
        using bound [OF k] by (rule zero_pad_less)
      then show "?f j < ?f k"
        unfolding f [OF j] f [OF k] by simp
    next
      show "sorted_wrt (<) [0..<mints cs]"
        by (rule sorted_wrt_upt)
    qed
    then have "sorted_wrt (<) ids"
      unfolding ids by (simp only: sorted_wrt_map)
    with l show "(\<forall>x \<in> set ids. length x = 10) \<and> sorted_wrt (<) ids" ..
  qed
  have dist: "length ids < 2 ^ 64 \<longrightarrow> distinct ids"
  proof
    assume b: "length ids < 2 ^ 64"
    have "inj_on ?f (set [0..<mints cs])"
    proof (rule inj_onI)
      fix j k
      assume jk: "j \<in> set [0..<mints cs]" "k \<in> set [0..<mints cs]" "?f j = ?f k"
      with b len have "Suc j < 2 ^ 64" "Suc k < 2 ^ 64" by simp_all
      from id_at_inj [OF this jk(3)] show "j = k" by simp
    qed
    then show "distinct ids"
      unfolding ids by (simp only: distinct_map distinct_upt simp_thms)
  qed
  from len every nth neg small dist show ?thesis by blast
qed


theorem request_ids_witness:
  "fst (run NewInMemoryStore [Op_Write ex_now ex_write, Op_Subscribe ex_request]) =
     [''REQ0000001'', ''REQ0000002''] \<and>
   length [''REQ0000001'', ''REQ0000002''] = mints [Op_Write ex_now ex_write, Op_Subscribe ex_request] \<and>
   length [''REQ0000001'', ''REQ0000002''] < 10 ^ 7 \<and>
   [''REQ0000001'', ''REQ0000002''] ! 1 = ''REQ'' @ zero_pad 7 (decimal (1 + 1)) \<and>
   length ''REQ0000001'' = 10 \<and> length ''REQ0000002'' = 10 \<and>
   sorted_wrt (<) [''REQ0000001'', ''REQ0000002''] \<and>
   distinct [''REQ0000001'', ''REQ0000002''] \<and>
   sint (of_nat (9223372036854775807 + 1) :: int64) < 0 \<and>
   fst (run NewInMemoryStore (replicate 9223372036854775808 (Op_Write ex_now ex_write))) !
     9223372036854775807 = ''REQ-9223372036854775808''"
proof -
  have h: "fst (run NewInMemoryStore [Op_Write ex_now ex_write, Op_Subscribe ex_request]) =
     [''REQ0000001'', ''REQ0000002'']"
    by (simp only: ex_store_run fst_conv)
  have b: "length [''REQ0000001'', ''REQ0000002''] < 10 ^ 7"
    by simp
  note T = request_ids [OF h]
  from T have c1: "length [''REQ0000001'', ''REQ0000002''] =
      mints [Op_Write ex_now ex_write, Op_Subscribe ex_request]"
    by (rule conjunct1)
  from T b have "(\<forall>x \<in> set [''REQ0000001'', ''REQ0000002'']. length x = 10) \<and>
      sorted_wrt (<) [''REQ0000001'', ''REQ0000002'']"
    by blast
  then have c2: "length ''REQ0000001'' = 10 \<and> length ''REQ0000002'' = 10 \<and>
      sorted_wrt (<) [''REQ0000001'', ''REQ0000002'']"
    by simp
  from T have c3: "distinct [''REQ0000001'', ''REQ0000002'']"
    by simp
  from T have "\<forall>i < length [''REQ0000001'', ''REQ0000002'']. i + 1 < 2 ^ 63 \<longrightarrow>
      [''REQ0000001'', ''REQ0000002''] ! i = ''REQ'' @ zero_pad 7 (decimal (i + 1))"
    by blast
  from this [rule_format, of 1]
  have c4: "[''REQ0000001'', ''REQ0000002''] ! 1 = ''REQ'' @ zero_pad 7 (decimal (1 + 1))"
    by simp
  let ?cs = "replicate 9223372036854775808 (Op_Write ex_now ex_write)"
  note W = request_ids [OF refl, of ?cs]
  have m: "mints ?cs = 9223372036854775808"
    by (rule mints_replicate_Write)
  from W have "length (fst (run NewInMemoryStore ?cs)) = mints ?cs"
    by (rule conjunct1)
  then have len: "length (fst (run NewInMemoryStore ?cs)) = 9223372036854775808"
    by (simp only: m)
  have "(9223372036854775807 :: nat) < 9223372036854775808"
    by simp
  then have lt: "9223372036854775807 < length (fst (run NewInMemoryStore ?cs))"
    by (simp only: len)
  have n: "sint (of_nat (9223372036854775807 + 1) :: int64) < 0"
    by simp
  note R = W [THEN conjunct2, THEN conjunct2, THEN conjunct2, THEN conjunct1, rule_format,
      OF lt n]
  have v: "''REQ-'' @
      zero_pad 6 (decimal (nat (- sint (of_nat (9223372036854775807 + 1) :: int64)))) =
      ''REQ-9223372036854775808''"
    by (simp add: zero_pad_def decimal.simps digit_def)
  note c5 = trans [OF R v]
  show ?thesis
    by (insert h c1 b c4 c2 c3 n c5, elim conjE, intro conjI; assumption)
qed

text \<open>
  C8 as stated fails at the 10,000,000th id: it has 8 digits, and as a string it is below
  the id before it.
\<close>

theorem request_id_width_counterexample:
  "fst (run NewInMemoryStore (replicate 10000000 (Op_Write ex_now ex_write))) ! 9999999 =
     ''REQ10000000'' \<and>
   length ''REQ10000000'' = 11 \<and>
   fst (run NewInMemoryStore (replicate 10000000 (Op_Write ex_now ex_write))) ! 9999998 =
     ''REQ9999999'' \<and>
   ''REQ10000000'' < ''REQ9999999''"
proof -
  have a: "id_at (of_nat (Suc 9999999)) = ''REQ10000000''"
    by (simp add: id_at_def fmt_07d_def zero_pad_def decimal.simps digit_def)
  have b: "id_at (of_nat (Suc 9999998)) = ''REQ9999999''"
    by (simp add: id_at_def fmt_07d_def zero_pad_def decimal.simps digit_def)
  have "(9999999 :: nat) < 10000000" "(9999998 :: nat) < 10000000"
    by simp_all
  from this [THEN run_Writes_nth, of ex_now ex_write] a b show ?thesis
    by simp
qed

end
